theory Spec2Isabelle
  imports Main "HOL-Library.Word"
begin

section \<open>CELL coordinates: the value type, the formatter and the parser\<close>

text \<open>
  A shallow embedding of \<^verbatim>\<open>constants.ts\<close>, \<^verbatim>\<open>errors.ts\<close>, \<^verbatim>\<open>coordinate.ts\<close>,
  \<^verbatim>\<open>formatter.ts\<close> and \<^verbatim>\<open>parser.ts\<close>.

  A JavaScript string is a sequence of UTF-16 code units, so a string is a list of
  16-bit words: \<^verbatim>\<open>s.length\<close> is the length of the list and \<^verbatim>\<open>s.charCodeAt(i)\<close> the
  unsigned value of its i-th element. Numbers that the code computes with are integers
  and are modelled by \<open>int\<close>; a number supplied by a caller may fail
  \<^verbatim>\<open>Number.isInteger\<close> (a fraction, NaN, an infinity), which is the second constructor
  of \<open>number\<close>.
\<close>

subsection \<open>Constants and errors\<close>

definition MAX_DIMENSIONS :: nat where
  "MAX_DIMENSIONS = 3"

definition MAX_INDEX_VALUE :: int where
  "MAX_INDEX_VALUE = 255"

definition MAX_STRING_LENGTH :: nat where
  "MAX_STRING_LENGTH = 7"

definition EMPTY_INPUT :: string where
  "EMPTY_INPUT = ''empty input''"

definition INPUT_TOO_LONG :: string where
  "INPUT_TOO_LONG = ''input exceeds 7 characters''"

definition INVALID_START :: string where
  "INVALID_START = ''must start with lowercase letter''"

definition UNEXPECTED_CHARACTER :: string where
  "UNEXPECTED_CHARACTER = ''unexpected character''"

definition LEADING_ZERO :: string where
  "LEADING_ZERO = ''leading zero''"

definition TOO_MANY_DIMENSIONS :: string where
  "TOO_MANY_DIMENSIONS = ''exceeds 3 dimensions''"

definition INDEX_OUT_OF_RANGE :: string where
  "INDEX_OUT_OF_RANGE = ''index exceeds 255''"

definition NO_INDICES :: string where
  "NO_INDICES = ''at least one index required''"

text \<open>
  A number as a caller may supply it: \<open>Integral k\<close> when \<^verbatim>\<open>Number.isInteger\<close> holds
  (its value is \<open>k\<close>), \<open>NonInteger\<close> for every other number (1.5, NaN, Infinity).
\<close>

datatype number = Integral int | NonInteger

text \<open>
  The exceptions: \<^verbatim>\<open>CellError\<close> with its message, the built-in \<^verbatim>\<open>RangeError\<close> of
  \<^verbatim>\<open>Coordinate.at\<close>, whose message is made of the argument and the number of dimensions,
  and the \<^verbatim>\<open>TypeError\<close> that the runtime throws at a write to a frozen object.
\<close>

datatype exn = CellError string | RangeError number nat | TypeError

subsection \<open>Strings\<close>

type_synonym jsstring = "16 word list"

definition fromCharCode :: "int \<Rightarrow> 16 word" where
  \<comment> \<open>\<^verbatim>\<open>String.fromCharCode\<close> of one code: the code modulo \<open>2 ^ 16\<close>.\<close>
  "fromCharCode code = word_of_int code"

definition charCodeAt :: "jsstring \<Rightarrow> nat \<Rightarrow> int" where
  \<comment> \<open>Out of range JavaScript answers NaN, which fails every comparison; \<open>-1\<close> stands
      for it here (every call of the source is guarded by \<^verbatim>\<open>pos < s.length\<close>).\<close>
  "charCodeAt s pos = (if pos < length s then uint (s ! pos) else - 1)"

definition str :: "string \<Rightarrow> jsstring" where
  \<comment> \<open>An ASCII string literal as its code units.\<close>
  "str cs = map of_char cs"

fun digits :: "nat \<Rightarrow> jsstring" where
  "digits n =
     (if n < 10 then [fromCharCode (48 + int n)]
      else digits (n div 10) @ [fromCharCode (48 + int (n mod 10))])"

declare digits.simps [simp del]

definition Number_toString :: "int \<Rightarrow> jsstring" where
  \<comment> \<open>\<^verbatim>\<open>Number.prototype.toString\<close> on an integer (of magnitude below \<open>10 ^ 21\<close>, where
      JavaScript writes every digit): its decimal digits, after a minus sign when negative.
      The code calls it on \<^verbatim>\<open>index + 1\<close> for a stored index.\<close>
  "Number_toString i = (if i < 0 then 45 # digits (nat (- i)) else digits (nat i))"

subsection \<open>coordinate.ts\<close>

definition encodeToLower :: "int \<Rightarrow> jsstring" where
  "encodeToLower index =
     (if index < 26 then [fromCharCode (97 + index)]
      else
        (let adjusted = index - 26;
             first = adjusted div 26;
             second = adjusted mod 26
         in [fromCharCode (97 + first), fromCharCode (97 + second)]))"

definition encodeToUpper :: "int \<Rightarrow> jsstring" where
  "encodeToUpper index =
     (if index < 26 then [fromCharCode (65 + index)]
      else
        (let adjusted = index - 26;
             first = adjusted div 26;
             second = adjusted mod 26
         in [fromCharCode (65 + first), fromCharCode (65 + second)]))"

definition encodeToNumber :: "int \<Rightarrow> jsstring" where
  "encodeToNumber index = Number_toString (index + 1)"

text \<open>
  The private field \<^verbatim>\<open>#indices\<close> is the only state of a Coordinate. The constructor stores
  numbers that have passed \<^verbatim>\<open>Number.isInteger\<close>, so the field holds integers.
\<close>

record Coordinate =
  indices :: "int list"

fun check_indices :: "number list \<Rightarrow> exn + int list" where
  \<comment> \<open>The \<^verbatim>\<open>for\<close> loop of the constructor; it answers the values it has accepted.\<close>
  "check_indices [] = Inr []"
| "check_indices (NonInteger # rest) = Inl (CellError INDEX_OUT_OF_RANGE)"
| "check_indices (Integral index # rest) =
     (if index < 0 \<or> index > MAX_INDEX_VALUE then Inl (CellError INDEX_OUT_OF_RANGE)
      else (case check_indices rest of
              Inl e \<Rightarrow> Inl e
            | Inr accepted \<Rightarrow> Inr (index # accepted)))"

definition Coordinate_new :: "number list \<Rightarrow> exn + Coordinate" where
  "Coordinate_new given =
     (if length given = 0 then Inl (CellError NO_INDICES)
      else if length given > MAX_DIMENSIONS then Inl (CellError TOO_MANY_DIMENSIONS)
      else (case check_indices given of
              Inl e \<Rightarrow> Inl e
            | Inr accepted \<Rightarrow> Inr \<lparr>indices = accepted\<rparr>))"

definition dimensions :: "Coordinate \<Rightarrow> nat" where
  "dimensions c = length (indices c)"

fun at :: "Coordinate \<Rightarrow> number \<Rightarrow> exn + int" where
  "at c NonInteger = Inl (RangeError NonInteger (length (indices c)))"
| "at c (Integral i) =
     (if i < 0 \<or> i \<ge> int (length (indices c))
      then Inl (RangeError (Integral i) (length (indices c)))
      else Inr (indices c ! nat i))"

function toString_loop :: "int list \<Rightarrow> nat \<Rightarrow> jsstring \<Rightarrow> jsstring" where
  "toString_loop stored dim result =
     (if dim < length stored then
        (let index = stored ! dim;
             dimensionType = dim mod 3
         in toString_loop stored (dim + 1)
              (if dimensionType = 0 then result @ encodeToLower index
               else if dimensionType = 1 then result @ encodeToNumber index
               else if dimensionType = 2 then result @ encodeToUpper index
               else result))
      else result)"
  by pat_completeness auto
termination
  by (relation "measure (\<lambda>(stored, dim, result). length stored - dim)") auto

declare toString_loop.simps [simp del]

definition toString :: "Coordinate \<Rightarrow> jsstring" where
  "toString c = toString_loop (indices c) 0 []"

subsection \<open>formatter.ts\<close>

definition format :: "number list \<Rightarrow> exn + jsstring" where
  "format given =
     (case Coordinate_new given of
        Inl e \<Rightarrow> Inl e
      | Inr c \<Rightarrow> Inr (toString c))"

subsection \<open>parser.ts\<close>

definition isLowercase :: "int \<Rightarrow> bool" where
  "isLowercase charCode \<longleftrightarrow> charCode \<ge> 97 \<and> charCode \<le> 122"

definition isUppercase :: "int \<Rightarrow> bool" where
  "isUppercase charCode \<longleftrightarrow> charCode \<ge> 65 \<and> charCode \<le> 90"

definition isDigit :: "int \<Rightarrow> bool" where
  "isDigit charCode \<longleftrightarrow> charCode \<ge> 48 \<and> charCode \<le> 57"

datatype DimensionType = Lowercase | Integer | Uppercase

text \<open>
  The decoders read \<^verbatim>\<open>chars[0]\<close> and, when the length is not 1, \<^verbatim>\<open>chars[1]\<close>; nothing
  else of the array is looked at. The parser calls them with a run of at least one
  character, so the empty array (where JavaScript would compute NaN) has no equation.
\<close>

fun decodeLowercase :: "int list \<Rightarrow> int" where
  "decodeLowercase [c0] = c0 - 97"
| "decodeLowercase (c0 # c1 # others) =
     (let first = c0 - 97;
          second = c1 - 97
      in 26 + first * 26 + second)"

fun decodeUppercase :: "int list \<Rightarrow> int" where
  "decodeUppercase [c0] = c0 - 65"
| "decodeUppercase (c0 # c1 # others) =
     (let first = c0 - 65;
          second = c1 - 65
      in 26 + first * 26 + second)"

definition decodeInteger :: "int list \<Rightarrow> int" where
  "decodeInteger chars = foldl (\<lambda>value c. value * 10 + (c - 48)) 0 chars - 1"

text \<open>
  The three inner loops of \<^verbatim>\<open>parse\<close> differ only in the character class they test:
  \<^verbatim>\<open>while (pos < s.length && isX(s.charCodeAt(pos))) { chars.push(s.charCodeAt(pos)); pos++; }\<close>
\<close>

function collect :: "(int \<Rightarrow> bool) \<Rightarrow> jsstring \<Rightarrow> nat \<Rightarrow> int list \<Rightarrow> nat \<times> int list" where
  "collect isX s pos chars =
     (if pos < length s \<and> isX (charCodeAt s pos)
      then collect isX s (pos + 1) (chars @ [charCodeAt s pos])
      else (pos, chars))"
  by pat_completeness auto
termination
  by (relation "measure (\<lambda>(isX, s, pos, chars). length s - pos)") auto

declare collect.simps [simp del]

text \<open>
  One turn of the \<^verbatim>\<open>switch\<close> in the loop of \<^verbatim>\<open>parse\<close>, at a position \<open>pos\<close> inside
  the string: a failure, or the position after the run, the decoded index and the next
  expected type.
\<close>

fun parse_dimension :: "jsstring \<Rightarrow> nat \<Rightarrow> DimensionType \<Rightarrow> exn + (nat \<times> int \<times> DimensionType)" where
  "parse_dimension s pos Lowercase =
     (let charCode = charCodeAt s pos in
      if \<not> isLowercase charCode then Inl (CellError UNEXPECTED_CHARACTER)
      else
        (case collect isLowercase s (pos + 1) [charCode] of
           (pos', chars) \<Rightarrow>
             (let index = decodeLowercase chars in
              if index > MAX_INDEX_VALUE then Inl (CellError INDEX_OUT_OF_RANGE)
              else Inr (pos', index, Integer))))"
| "parse_dimension s pos Integer =
     (let charCode = charCodeAt s pos in
      if \<not> isDigit charCode then Inl (CellError UNEXPECTED_CHARACTER)
      else if charCode = 48 then Inl (CellError LEADING_ZERO)
      else
        (case collect isDigit s (pos + 1) [charCode] of
           (pos', chars) \<Rightarrow>
             (let index = decodeInteger chars in
              if index < 0 \<or> index > MAX_INDEX_VALUE then Inl (CellError INDEX_OUT_OF_RANGE)
              else Inr (pos', index, Uppercase))))"
| "parse_dimension s pos Uppercase =
     (let charCode = charCodeAt s pos in
      if \<not> isUppercase charCode then Inl (CellError UNEXPECTED_CHARACTER)
      else
        (case collect isUppercase s (pos + 1) [charCode] of
           (pos', chars) \<Rightarrow>
             (let index = decodeUppercase chars in
              if index > MAX_INDEX_VALUE then Inl (CellError INDEX_OUT_OF_RANGE)
              else Inr (pos', index, Lowercase))))"

text \<open>
  The \<^verbatim>\<open>while (pos < s.length)\<close> loop. Every turn that does not throw pushes one index
  and a turn with three indices throws, which bounds the number of turns.
\<close>

function parse_loop :: "jsstring \<Rightarrow> nat \<Rightarrow> DimensionType \<Rightarrow> int list \<Rightarrow> exn + int list" where
  "parse_loop s pos expectedType collected =
     (if pos < length s then
        (if length collected \<ge> MAX_DIMENSIONS then Inl (CellError TOO_MANY_DIMENSIONS)
         else
           (case parse_dimension s pos expectedType of
              Inl e \<Rightarrow> Inl e
            | Inr (pos', index, nextType) \<Rightarrow>
                parse_loop s pos' nextType (collected @ [index])))
      else Inr collected)"
  by pat_completeness auto
termination
  by (relation "measure (\<lambda>(s, pos, expectedType, collected). MAX_DIMENSIONS - length collected)")
    auto

declare parse_loop.simps [simp del]

definition parse :: "jsstring \<Rightarrow> exn + Coordinate" where
  "parse s =
     (if length s = 0 then Inl (CellError EMPTY_INPUT)
      else if length s > MAX_STRING_LENGTH then Inl (CellError INPUT_TOO_LONG)
      else
        (let firstCharCode = charCodeAt s 0 in
         if \<not> isLowercase firstCharCode then Inl (CellError INVALID_START)
         else
           (case parse_loop s 0 Lowercase [] of
              Inl e \<Rightarrow> Inl e
            | Inr collected \<Rightarrow> Coordinate_new (map Integral collected))))"

definition validate :: "jsstring \<Rightarrow> exn + unit" where
  "validate s = (case parse s of Inl e \<Rightarrow> Inl e | Inr c \<Rightarrow> Inr ())"

definition isValid :: "jsstring \<Rightarrow> bool" where
  \<comment> \<open>\<^verbatim>\<open>try { parse(s); return true; } catch { return false; }\<close>\<close>
  "isValid s = (case parse s of Inl e \<Rightarrow> False | Inr c \<Rightarrow> True)"

subsection \<open>Vocabulary of the properties\<close>

fun is_index :: "number \<Rightarrow> bool" where
  \<comment> \<open>An integer in \<open>[0, 255]\<close>.\<close>
  "is_index (Integral k) \<longleftrightarrow> 0 \<le> k \<and> k \<le> 255"
| "is_index NonInteger \<longleftrightarrow> False"

definition in_class :: "int \<Rightarrow> bool" where
  \<comment> \<open>The code of one of the 62 characters a-z, 0-9, A-Z, said with the characters
      themselves and not with the tests of the parser.\<close>
  "in_class charCode \<longleftrightarrow>
     charCode \<in> of_char ` set (''abcdefghijklmnopqrstuvwxyz'' @ ''0123456789'' @
                                ''ABCDEFGHIJKLMNOPQRSTUVWXYZ'')"

subsection \<open>The array behind \<^verbatim>\<open>indices\<close>, as an object in a store\<close>

text \<open>
  The constructor ends with \<^verbatim>\<open>this.#indices = Object.freeze([...indices])\<close>: a new array
  object that holds a copy of the accepted values, frozen, and whose reference is kept in
  the private field. The getter \<^verbatim>\<open>indices\<close> answers that reference. To tell one array
  object from another with the same contents, array objects live in a store and a
  reference is an address of the store; a new object takes the next free address.
\<close>

record array_object =
  elements :: "int list"
  frozen :: bool

type_synonym store = "array_object list"

record Coordinate_object =
  private_indices :: nat

definition Coordinate_construct :: "store \<Rightarrow> number list \<Rightarrow> exn + (Coordinate_object \<times> store)" where
  "Coordinate_construct st given =
     (case Coordinate_new given of
        Inl e \<Rightarrow> Inl e
      | Inr c \<Rightarrow>
          Inr (\<lparr>private_indices = length st\<rparr>,
               st @ [\<lparr>elements = indices c, frozen = True\<rparr>]))"

definition get_indices :: "Coordinate_object \<Rightarrow> nat" where
  \<comment> \<open>\<^verbatim>\<open>get indices() { return this.#indices; }\<close>\<close>
  "get_indices obj = private_indices obj"

definition snapshot :: "store \<Rightarrow> Coordinate_object \<Rightarrow> Coordinate" where
  \<comment> \<open>What the members \<^verbatim>\<open>dimensions\<close>, \<^verbatim>\<open>at\<close> and \<^verbatim>\<open>toString\<close> read through the field.\<close>
  "snapshot st obj = \<lparr>indices = elements (st ! private_indices obj)\<rparr>"

text \<open>
  Every write to an array (\<^verbatim>\<open>a[i] = v\<close>, \<^verbatim>\<open>a.push(v)\<close>, \<^verbatim>\<open>a.pop()\<close>,
  \<^verbatim>\<open>a.length = n\<close>, \<^verbatim>\<open>a.sort()\<close>, ...) replaces its elements by a function of them. On a
  frozen array the runtime refuses the write: module code is strict, so it throws a
  TypeError, and the array stays as it was. No operation unfreezes an object.
\<close>

definition mutate :: "store \<Rightarrow> nat \<Rightarrow> (int list \<Rightarrow> int list) \<Rightarrow> exn + store" where
  "mutate st a f =
     (if a < length st then
        (if frozen (st ! a) then Inl TypeError
         else Inr (st[a := (st ! a)\<lparr>elements := f (elements (st ! a))\<rparr>]))
      else Inr st)"

text \<open>
  What a holder of a Coordinate and of array references can do: use the four members of
  the class, none of which writes; construct further Coordinates; write to an array.
\<close>

datatype action =
    Read_dimensions
  | Read_indices
  | Call_at number
  | Call_toString
  | New_Coordinate "number list"
  | Mutate nat "int list \<Rightarrow> int list"

fun after :: "Coordinate_object \<Rightarrow> store \<Rightarrow> action \<Rightarrow> store" where
  \<comment> \<open>The store after an action, whether the action returned or threw.\<close>
  "after obj st Read_dimensions = st"
| "after obj st Read_indices = st"
| "after obj st (Call_at i) = st"
| "after obj st Call_toString = st"
| "after obj st (New_Coordinate given) =
     (case Coordinate_construct st given of Inl e \<Rightarrow> st | Inr (obj', st') \<Rightarrow> st')"
| "after obj st (Mutate a f) =
     (case mutate st a f of Inl e \<Rightarrow> st | Inr st' \<Rightarrow> st')"

section \<open>Basic facts\<close>

lemmas ErrorMessages_defs =
  EMPTY_INPUT_def INPUT_TOO_LONG_def INVALID_START_def UNEXPECTED_CHARACTER_def
  LEADING_ZERO_def TOO_MANY_DIMENSIONS_def INDEX_OUT_OF_RANGE_def NO_INDICES_def

lemma in_class_ranges:
  "in_class c \<longleftrightarrow> (48 \<le> c \<and> c \<le> 57) \<or> (65 \<le> c \<and> c \<le> 90) \<or> (97 \<le> c \<and> c \<le> 122)"
  unfolding in_class_def by (simp del: set_append) presburger

lemma in_class_classes:
  "in_class c \<longleftrightarrow> isLowercase c \<or> isDigit c \<or> isUppercase c"
  by (auto simp add: in_class_ranges isLowercase_def isDigit_def isUppercase_def)

lemma collect_takeWhile:
  "collect isX s pos chars =
     (pos + length (takeWhile (\<lambda>x. isX (uint x)) (drop pos s)),
      chars @ map uint (takeWhile (\<lambda>x. isX (uint x)) (drop pos s)))"
proof (induction isX s pos chars rule: collect.induct)
  case (1 isX s pos chars)
  show ?case
  proof (cases "pos < length s")
    case inside: True
    then have d: "drop pos s = s ! pos # drop (Suc pos) s"
      by (simp add: Cons_nth_drop_Suc)
    from inside have c: "charCodeAt s pos = uint (s ! pos)"
      by (simp add: charCodeAt_def)
    show ?thesis
    proof (cases "isX (charCodeAt s pos)")
      case True
      with inside 1 show ?thesis
        by (subst collect.simps) (simp add: d c)
    next
      case False
      with inside show ?thesis
        by (subst collect.simps) (simp add: d c)
    qed
  next
    case False
    then show ?thesis
      by (subst collect.simps) simp
  qed
qed

lemma toString_loop_concat:
  "toString_loop stored dim result =
     result @ concat (map (\<lambda>p. if p mod 3 = 0 then encodeToLower (stored ! p)
                               else if p mod 3 = 1 then encodeToNumber (stored ! p)
                               else encodeToUpper (stored ! p)) [dim..<length stored])"
proof (induction stored dim result rule: toString_loop.induct)
  case (1 stored dim result)
  show ?case
  proof (cases "dim < length stored")
    case True
    have m: "dim mod 3 = 0 \<or> dim mod 3 = 1 \<or> dim mod 3 = 2"
      by arith
    from True have u: "[dim..<length stored] = dim # [Suc dim..<length stored]"
      by (simp add: upt_rec)
    from True 1 m show ?thesis
      by (subst toString_loop.simps) (auto simp add: u Let_def)
  next
    case False
    then show ?thesis
      by (subst toString_loop.simps) simp
  qed
qed

lemma uint_fromCharCode:
  "0 \<le> code \<Longrightarrow> code < 65536 \<Longrightarrow> uint (fromCharCode code) = code"
  by (simp add: fromCharCode_def uint_word_of_int take_bit_int_eq_self)

lemma letters_bound:
  fixes v :: int
  assumes "26 \<le> v" "v \<le> 255"
  shows "0 \<le> (v - 26) div 26" "(v - 26) div 26 \<le> 8" "0 \<le> (v - 26) mod 26" "(v - 26) mod 26 < 26"
  using assms by auto

lemma uint_encodeToLower:
  assumes "0 \<le> v" "v \<le> 255"
  shows "map uint (encodeToLower v) =
           (if v < 26 then [97 + v] else [97 + (v - 26) div 26, 97 + (v - 26) mod 26])"
proof (cases "v < 26")
  case True
  with assms show ?thesis
    by (simp add: encodeToLower_def uint_fromCharCode)
next
  case False
  with assms letters_bound [of v] show ?thesis
    by (simp add: encodeToLower_def Let_def uint_fromCharCode)
qed

lemma uint_encodeToUpper:
  assumes "0 \<le> v" "v \<le> 255"
  shows "map uint (encodeToUpper v) =
           (if v < 26 then [65 + v] else [65 + (v - 26) div 26, 65 + (v - 26) mod 26])"
proof (cases "v < 26")
  case True
  with assms show ?thesis
    by (simp add: encodeToUpper_def uint_fromCharCode)
next
  case False
  with assms letters_bound [of v] show ?thesis
    by (simp add: encodeToUpper_def Let_def uint_fromCharCode)
qed

lemma decodeLowercase_encodeToLower:
  assumes "0 \<le> v" "v \<le> 255"
  shows "decodeLowercase (map uint (encodeToLower v)) = v"
proof (cases "v < 26")
  case True
  with assms show ?thesis
    by (simp add: uint_encodeToLower)
next
  case False
  define q r where "q = (v - 26) div 26" and "r = (v - 26) mod 26"
  have "q * 26 + r = v - 26"
    unfolding q_def r_def by (rule div_mult_mod_eq)
  moreover from False assms have "map uint (encodeToLower v) = [97 + q, 97 + r]"
    by (simp add: uint_encodeToLower q_def r_def)
  ultimately show ?thesis
    by (simp add: Let_def)
qed

lemma decodeUppercase_encodeToUpper:
  assumes "0 \<le> v" "v \<le> 255"
  shows "decodeUppercase (map uint (encodeToUpper v)) = v"
proof (cases "v < 26")
  case True
  with assms show ?thesis
    by (simp add: uint_encodeToUpper)
next
  case False
  define q r where "q = (v - 26) div 26" and "r = (v - 26) mod 26"
  have "q * 26 + r = v - 26"
    unfolding q_def r_def by (rule div_mult_mod_eq)
  moreover from False assms have "map uint (encodeToUpper v) = [65 + q, 65 + r]"
    by (simp add: uint_encodeToUpper q_def r_def)
  ultimately show ?thesis
    by (simp add: Let_def)
qed

lemma encodeToLower_class:
  assumes "0 \<le> v" "v \<le> 255" "x \<in> set (encodeToLower v)"
  shows "isLowercase (uint x)"
proof -
  from assms(3) have "uint x \<in> set (map uint (encodeToLower v))"
    by simp
  with assms(1,2) letters_bound [of v] show ?thesis
    by (auto simp add: uint_encodeToLower isLowercase_def split: if_splits)
qed

lemma encodeToUpper_class:
  assumes "0 \<le> v" "v \<le> 255" "x \<in> set (encodeToUpper v)"
  shows "isUppercase (uint x)"
proof -
  from assms(3) have "uint x \<in> set (map uint (encodeToUpper v))"
    by simp
  with assms(1,2) letters_bound [of v] show ?thesis
    by (auto simp add: uint_encodeToUpper isUppercase_def split: if_splits)
qed

lemma digits_nonempty: "digits n \<noteq> []"
  by (subst digits.simps) simp

lemma digits_class: "x \<in> set (digits n) \<Longrightarrow> isDigit (uint x)"
proof (induction n rule: digits.induct)
  case (1 n)
  show ?case
  proof (cases "n < 10")
    case True
    with 1(2) have "x = fromCharCode (48 + int n)"
      by (subst (asm) digits.simps) simp
    with True show ?thesis
      by (simp add: uint_fromCharCode isDigit_def)
  next
    case False
    with 1(2) have "x \<in> set (digits (n div 10)) \<or> x = fromCharCode (48 + int (n mod 10))"
      by (subst (asm) digits.simps) auto
    then show ?thesis
    proof
      assume "x \<in> set (digits (n div 10))"
      with 1(1) False show ?thesis by simp
    next
      assume "x = fromCharCode (48 + int (n mod 10))"
      moreover have "int (n mod 10) < 10" by simp
      ultimately show ?thesis
        by (simp add: uint_fromCharCode isDigit_def)
    qed
  qed
qed

lemma digits_value:
  "foldl (\<lambda>value c. value * 10 + (c - 48)) 0 (map uint (digits n)) = int n"
proof (induction n rule: digits.induct)
  case (1 n)
  show ?case
  proof (cases "n < 10")
    case True
    then show ?thesis
      by (subst digits.simps) (simp add: uint_fromCharCode)
  next
    case False
    have u: "uint (fromCharCode (48 + int n mod 10)) = 48 + int n mod 10"
      by (simp add: uint_fromCharCode)
    from False 1 show ?thesis
      by (subst digits.simps) (simp add: u zdiv_int zmod_int)
  qed
qed

lemma digits_hd: "0 < n \<Longrightarrow> uint (hd (digits n)) \<noteq> 48"
proof (induction n rule: digits.induct)
  case (1 n)
  show ?case
  proof (cases "n < 10")
    case True
    with 1(2) show ?thesis
      by (subst digits.simps) (simp add: uint_fromCharCode)
  next
    case False
    then have "0 < n div 10" by simp
    with 1(1) False have "uint (hd (digits (n div 10))) \<noteq> 48" by simp
    with False show ?thesis
      by (subst digits.simps) (simp add: digits_nonempty)
  qed
qed

lemma digits_length: "n < 1000 \<Longrightarrow> length (digits n) \<le> 3"
  by (subst digits.simps, subst digits.simps, subst digits.simps) simp

lemma takeWhile_run:
  assumes "\<forall>x\<in>set run. P x" "rest = [] \<or> \<not> P (hd rest)"
  shows "takeWhile P (run @ rest) = run"
proof -
  from assms(2) have "takeWhile P rest = []"
    by (cases rest) auto
  with assms(1) show ?thesis
    by (simp add: takeWhile_append2)
qed

lemma collect_run:
  assumes "length pre = pos" "\<forall>x\<in>set run. isX (uint x)" "rest = [] \<or> \<not> isX (uint (hd rest))"
  shows "collect isX (pre @ x # run @ rest) (Suc pos) [c] = (Suc (pos + length run), c # map uint run)"
proof -
  from assms(1) have "drop (Suc pos) (pre @ x # run @ rest) = run @ rest"
    by simp
  with takeWhile_run [OF assms(2,3)] show ?thesis
    by (simp add: collect_takeWhile)
qed

lemma charCodeAt_append:
  "length pre = pos \<Longrightarrow> charCodeAt (pre @ x # rest) pos = uint x"
  by (auto simp add: charCodeAt_def)

lemma parse_dimension_Lowercase_run:
  assumes "length pre = pos" "run \<noteq> []" "\<forall>x\<in>set run. isLowercase (uint x)"
    "rest = [] \<or> \<not> isLowercase (uint (hd rest))"
  shows "parse_dimension (pre @ run @ rest) pos Lowercase =
           (if decodeLowercase (map uint run) > MAX_INDEX_VALUE
            then Inl (CellError INDEX_OUT_OF_RANGE)
            else Inr (pos + length run, decodeLowercase (map uint run), Integer))"
proof -
  from assms(2) obtain x xs where run: "run = x # xs"
    by (cases run) auto
  with assms(3) have xs: "\<forall>y\<in>set xs. isLowercase (uint y)" and x: "isLowercase (uint x)"
    by auto
  show ?thesis
    unfolding run
    by (simp add: charCodeAt_append [OF assms(1)] collect_run [OF assms(1) xs assms(4)] x Let_def)
qed

lemma parse_dimension_Uppercase_run:
  assumes "length pre = pos" "run \<noteq> []" "\<forall>x\<in>set run. isUppercase (uint x)"
    "rest = [] \<or> \<not> isUppercase (uint (hd rest))"
  shows "parse_dimension (pre @ run @ rest) pos Uppercase =
           (if decodeUppercase (map uint run) > MAX_INDEX_VALUE
            then Inl (CellError INDEX_OUT_OF_RANGE)
            else Inr (pos + length run, decodeUppercase (map uint run), Lowercase))"
proof -
  from assms(2) obtain x xs where run: "run = x # xs"
    by (cases run) auto
  with assms(3) have xs: "\<forall>y\<in>set xs. isUppercase (uint y)" and x: "isUppercase (uint x)"
    by auto
  show ?thesis
    unfolding run
    by (simp add: charCodeAt_append [OF assms(1)] collect_run [OF assms(1) xs assms(4)] x Let_def)
qed

lemma parse_dimension_Integer_run:
  assumes "length pre = pos" "run \<noteq> []" "\<forall>x\<in>set run. isDigit (uint x)"
    "rest = [] \<or> \<not> isDigit (uint (hd rest))" "uint (hd run) \<noteq> 48"
  shows "parse_dimension (pre @ run @ rest) pos Integer =
           (if decodeInteger (map uint run) < 0 \<or> decodeInteger (map uint run) > MAX_INDEX_VALUE
            then Inl (CellError INDEX_OUT_OF_RANGE)
            else Inr (pos + length run, decodeInteger (map uint run), Uppercase))"
proof -
  from assms(2) obtain x xs where run: "run = x # xs"
    by (cases run) auto
  with assms(3,5) have xs: "\<forall>y\<in>set xs. isDigit (uint y)" and x: "isDigit (uint x)"
    and z: "uint x \<noteq> 48"
    by auto
  show ?thesis
    unfolding run
    by (simp add: charCodeAt_append [OF assms(1)] collect_run [OF assms(1) xs assms(4)] x z Let_def)
qed

lemma parse_loop_turn:
  assumes "pos < length s" "length collected < 3"
    "parse_dimension s pos expectedType = Inr (pos', index, nextType)"
  shows "parse_loop s pos expectedType collected = parse_loop s pos' nextType (collected @ [index])"
  using assms by (subst parse_loop.simps) (simp add: MAX_DIMENSIONS_def)

lemma parse_loop_exit:
  "\<not> pos < length s \<Longrightarrow> parse_loop s pos expectedType collected = Inr collected"
  by (subst parse_loop.simps) simp

lemma parse_loop_limit:
  "pos < length s \<Longrightarrow> 3 \<le> length collected \<Longrightarrow>
     parse_loop s pos expectedType collected = Inl (CellError TOO_MANY_DIMENSIONS)"
  by (subst parse_loop.simps) (simp add: MAX_DIMENSIONS_def)

lemma parse_loop_failure:
  assumes "pos < length s" "length collected < 3"
    "parse_dimension s pos expectedType = Inl e"
  shows "parse_loop s pos expectedType collected = Inl e"
  using assms by (subst parse_loop.simps) (simp add: MAX_DIMENSIONS_def)

lemma parse_loop_Lowercase_run:
  assumes "L \<noteq> []" "\<forall>x\<in>set L. isLowercase (uint x)" "decodeLowercase (map uint L) \<le> 255"
    "rest = [] \<or> \<not> isLowercase (uint (hd rest))"
  shows "parse_loop (L @ rest) 0 Lowercase [] =
           parse_loop (L @ rest) (length L) Integer [decodeLowercase (map uint L)]"
proof -
  have "parse_dimension (L @ rest) 0 Lowercase =
          Inr (length L, decodeLowercase (map uint L), Integer)"
    using parse_dimension_Lowercase_run [of "[]" 0 L rest] assms
    by (simp add: MAX_INDEX_VALUE_def)
  moreover have "0 < length (L @ rest)"
    using assms(1) by simp
  ultimately show ?thesis
    by (simp add: parse_loop_turn)
qed

lemma parse_loop_Integer_run:
  assumes "D \<noteq> []" "\<forall>x\<in>set D. isDigit (uint x)" "uint (hd D) \<noteq> 48"
    "0 \<le> decodeInteger (map uint D)" "decodeInteger (map uint D) \<le> 255"
    "rest = [] \<or> \<not> isDigit (uint (hd rest))"
  shows "parse_loop (pre @ D @ rest) (length pre) Integer [i0] =
           parse_loop (pre @ D @ rest) (length pre + length D) Uppercase
             [i0, decodeInteger (map uint D)]"
proof -
  have "parse_dimension (pre @ D @ rest) (length pre) Integer =
          Inr (length pre + length D, decodeInteger (map uint D), Uppercase)"
    using parse_dimension_Integer_run [of pre "length pre" D rest] assms
    by (simp add: MAX_INDEX_VALUE_def)
  moreover have "length pre < length (pre @ D @ rest)"
    using assms(1) by simp
  ultimately show ?thesis
    by (simp add: parse_loop_turn)
qed

lemma parse_loop_Uppercase_run:
  assumes "U \<noteq> []" "\<forall>x\<in>set U. isUppercase (uint x)" "decodeUppercase (map uint U) \<le> 255"
    "rest = [] \<or> \<not> isUppercase (uint (hd rest))"
  shows "parse_loop (pre @ U @ rest) (length pre) Uppercase [i0, i1] =
           parse_loop (pre @ U @ rest) (length pre + length U) Lowercase
             [i0, i1, decodeUppercase (map uint U)]"
proof -
  have "parse_dimension (pre @ U @ rest) (length pre) Uppercase =
          Inr (length pre + length U, decodeUppercase (map uint U), Lowercase)"
    using parse_dimension_Uppercase_run [of pre "length pre" U rest] assms
    by (simp add: MAX_INDEX_VALUE_def)
  moreover have "length pre < length (pre @ U @ rest)"
    using assms(1) by simp
  ultimately show ?thesis
    by (simp add: parse_loop_turn)
qed

lemma digit_not_lowercase: "isDigit c \<Longrightarrow> \<not> isLowercase c"
  by (simp add: isDigit_def isLowercase_def)

lemma uppercase_not_digit: "isUppercase c \<Longrightarrow> \<not> isDigit c"
  by (simp add: isDigit_def isUppercase_def)

lemma hd_run_class: "run \<noteq> [] \<Longrightarrow> \<forall>x\<in>set run. P (uint x) \<Longrightarrow> P (uint (hd (run @ rest)))"
  by (cases run) auto

lemma parse_loop_three_runs:
  assumes L: "L \<noteq> []" "\<forall>x\<in>set L. isLowercase (uint x)" "decodeLowercase (map uint L) \<le> 255"
    and D: "D \<noteq> []" "\<forall>x\<in>set D. isDigit (uint x)" "uint (hd D) \<noteq> 48"
      "0 \<le> decodeInteger (map uint D)" "decodeInteger (map uint D) \<le> 255"
    and U: "U \<noteq> []" "\<forall>x\<in>set U. isUppercase (uint x)" "decodeUppercase (map uint U) \<le> 255"
    and rest: "rest = [] \<or> \<not> isUppercase (uint (hd rest))"
  shows "parse_loop (L @ D @ U @ rest) 0 Lowercase [] =
           parse_loop (L @ D @ U @ rest) (length L + length D + length U) Lowercase
             [decodeLowercase (map uint L), decodeInteger (map uint D), decodeUppercase (map uint U)]"
proof -
  have nl: "D @ U @ rest = [] \<or> \<not> isLowercase (uint (hd (D @ U @ rest)))"
    using hd_run_class [OF D(1,2)] by (simp add: digit_not_lowercase)
  have nd: "U @ rest = [] \<or> \<not> isDigit (uint (hd (U @ rest)))"
    using hd_run_class [OF U(1,2)] by (simp add: uppercase_not_digit)
  have "parse_loop (L @ D @ U @ rest) 0 Lowercase [] =
          parse_loop (L @ D @ U @ rest) (length L) Integer [decodeLowercase (map uint L)]"
    by (rule parse_loop_Lowercase_run [OF L nl])
  also have "\<dots> = parse_loop (L @ D @ U @ rest) (length L + length D) Uppercase
          [decodeLowercase (map uint L), decodeInteger (map uint D)]"
    by (rule parse_loop_Integer_run [OF D nd])
  also have "\<dots> = parse_loop (L @ D @ U @ rest) (length L + length D + length U) Lowercase
          [decodeLowercase (map uint L), decodeInteger (map uint D), decodeUppercase (map uint U)]"
    using parse_loop_Uppercase_run [OF U rest, of "L @ D"] by simp
  finally show ?thesis .
qed

lemma parse_loop_two_runs:
  assumes L: "L \<noteq> []" "\<forall>x\<in>set L. isLowercase (uint x)" "decodeLowercase (map uint L) \<le> 255"
    and D: "D \<noteq> []" "\<forall>x\<in>set D. isDigit (uint x)" "uint (hd D) \<noteq> 48"
      "0 \<le> decodeInteger (map uint D)" "decodeInteger (map uint D) \<le> 255"
  shows "parse_loop (L @ D) 0 Lowercase [] =
           Inr [decodeLowercase (map uint L), decodeInteger (map uint D)]"
proof -
  have nl: "D = [] \<or> \<not> isLowercase (uint (hd D))"
    using hd_run_class [OF D(1,2), of "[]"] by (simp add: digit_not_lowercase)
  have "parse_loop (L @ D) 0 Lowercase [] =
          parse_loop (L @ D) (length L) Integer [decodeLowercase (map uint L)]"
    by (rule parse_loop_Lowercase_run [OF L nl])
  also have "\<dots> = parse_loop (L @ D) (length L + length D) Uppercase
          [decodeLowercase (map uint L), decodeInteger (map uint D)]"
    using parse_loop_Integer_run [OF D, of "[]" L] by simp
  also have "\<dots> = Inr [decodeLowercase (map uint L), decodeInteger (map uint D)]"
    by (simp add: parse_loop_exit)
  finally show ?thesis .
qed

lemma parse_loop_one_run:
  assumes L: "L \<noteq> []" "\<forall>x\<in>set L. isLowercase (uint x)" "decodeLowercase (map uint L) \<le> 255"
  shows "parse_loop L 0 Lowercase [] = Inr [decodeLowercase (map uint L)]"
proof -
  have "parse_loop L 0 Lowercase [] = parse_loop L (length L) Integer [decodeLowercase (map uint L)]"
    using parse_loop_Lowercase_run [OF L, of "[]"] by simp
  then show ?thesis
    by (simp add: parse_loop_exit)
qed

lemma check_indices_accepts:
  "\<forall>v\<in>set vs. 0 \<le> v \<and> v \<le> 255 \<Longrightarrow> check_indices (map Integral vs) = Inr vs"
  by (induction vs) (simp_all add: MAX_INDEX_VALUE_def)

lemma Coordinate_new_accepts:
  assumes "1 \<le> length vs" "length vs \<le> 3" "\<forall>v\<in>set vs. 0 \<le> v \<and> v \<le> 255"
  shows "Coordinate_new (map Integral vs) = Inr \<lparr>indices = vs\<rparr>"
proof -
  from assms(1) have "map Integral vs \<noteq> []"
    by (cases vs) simp_all
  with assms(2) check_indices_accepts [OF assms(3)] show ?thesis
    by (simp add: Coordinate_new_def MAX_DIMENSIONS_def)
qed

lemma encodeToNumber_run:
  assumes "0 \<le> v" "v \<le> 255"
  shows "encodeToNumber v \<noteq> []" "\<forall>x\<in>set (encodeToNumber v). isDigit (uint x)"
    "uint (hd (encodeToNumber v)) \<noteq> 48" "decodeInteger (map uint (encodeToNumber v)) = v"
    "length (encodeToNumber v) \<le> 3"
proof -
  from assms have e: "encodeToNumber v = digits (nat (v + 1))"
    by (simp add: encodeToNumber_def Number_toString_def)
  show "encodeToNumber v \<noteq> []"
    by (simp add: e digits_nonempty)
  show "\<forall>x\<in>set (encodeToNumber v). isDigit (uint x)"
    by (simp add: e digits_class)
  from assms show "uint (hd (encodeToNumber v)) \<noteq> 48"
    by (simp add: e digits_hd)
  from assms show "decodeInteger (map uint (encodeToNumber v)) = v"
    by (simp add: e decodeInteger_def digits_value)
  from assms show "length (encodeToNumber v) \<le> 3"
    by (simp add: e digits_length)
qed

lemma encodeToLower_run:
  assumes "0 \<le> v" "v \<le> 255"
  shows "encodeToLower v \<noteq> []" "\<forall>x\<in>set (encodeToLower v). isLowercase (uint x)"
    "decodeLowercase (map uint (encodeToLower v)) \<le> 255" "length (encodeToLower v) \<le> 2"
proof -
  show "encodeToLower v \<noteq> []" and "length (encodeToLower v) \<le> 2"
    by (simp_all add: encodeToLower_def Let_def)
  from assms show "\<forall>x\<in>set (encodeToLower v). isLowercase (uint x)"
    by (simp add: encodeToLower_class)
  from assms show "decodeLowercase (map uint (encodeToLower v)) \<le> 255"
    by (simp add: decodeLowercase_encodeToLower)
qed

lemma encodeToUpper_run:
  assumes "0 \<le> v" "v \<le> 255"
  shows "encodeToUpper v \<noteq> []" "\<forall>x\<in>set (encodeToUpper v). isUppercase (uint x)"
    "decodeUppercase (map uint (encodeToUpper v)) \<le> 255" "length (encodeToUpper v) \<le> 2"
proof -
  show "encodeToUpper v \<noteq> []" and "length (encodeToUpper v) \<le> 2"
    by (simp_all add: encodeToUpper_def Let_def)
  from assms show "\<forall>x\<in>set (encodeToUpper v). isUppercase (uint x)"
    by (simp add: encodeToUpper_class)
  from assms show "decodeUppercase (map uint (encodeToUpper v)) \<le> 255"
    by (simp add: decodeUppercase_encodeToUpper)
qed

lemma parse_after_checks:
  assumes "s \<noteq> []" "length s \<le> 7" "isLowercase (uint (hd s))"
  shows "parse s = (case parse_loop s 0 Lowercase [] of
                      Inl e \<Rightarrow> Inl e
                    | Inr collected \<Rightarrow> Coordinate_new (map Integral collected))"
proof -
  from assms(1) have "charCodeAt s 0 = uint (hd s)"
    by (cases s) (simp_all add: charCodeAt_def)
  with assms show ?thesis
    by (simp add: parse_def MAX_STRING_LENGTH_def Let_def)
qed

lemma toString_cases:
  "toString \<lparr>indices = [a]\<rparr> = encodeToLower a"
  "toString \<lparr>indices = [a, b]\<rparr> = encodeToLower a @ encodeToNumber b"
  "toString \<lparr>indices = [a, b, d]\<rparr> = encodeToLower a @ encodeToNumber b @ encodeToUpper d"
  by (simp_all add: toString_def toString_loop_concat upt_rec)

lemma collect_scanned:
  assumes "collect isX s pos chars = (pos', chars')"
  shows "pos \<le> pos'" "\<forall>i. pos \<le> i \<and> i < pos' \<longrightarrow> i < length s \<and> isX (charCodeAt s i)"
    "\<exists>run. chars' = chars @ run \<and> (\<forall>c\<in>set run. isX c)"
proof -
  let ?run = "takeWhile (\<lambda>x. isX (uint x)) (drop pos s)"
  from assms have p: "pos' = pos + length ?run" and c: "chars' = chars @ map uint ?run"
    by (simp_all add: collect_takeWhile)
  show "pos \<le> pos'"
    by (simp add: p)
  show "\<forall>i. pos \<le> i \<and> i < pos' \<longrightarrow> i < length s \<and> isX (charCodeAt s i)"
  proof (intro allI impI)
    fix i
    assume i: "pos \<le> i \<and> i < pos'"
    then have j: "i - pos < length ?run"
      by (auto simp add: p)
    moreover have "length ?run \<le> length (drop pos s)"
      by (rule length_takeWhile_le)
    ultimately have l: "i < length s"
      using i by simp
    from j have "?run ! (i - pos) = drop pos s ! (i - pos)"
      by (rule takeWhile_nth)
    with i l have "?run ! (i - pos) = s ! i"
      by simp
    moreover from j have "?run ! (i - pos) \<in> set ?run"
      by (rule nth_mem)
    then have "isX (uint (?run ! (i - pos)))"
      by (rule set_takeWhileD [THEN conjunct2])
    ultimately show "i < length s \<and> isX (charCodeAt s i)"
      using l by (simp add: charCodeAt_def)
  qed
  have "\<forall>c\<in>set (map uint ?run). isX c"
    by (auto dest: set_takeWhileD)
  with c show "\<exists>run. chars' = chars @ run \<and> (\<forall>c\<in>set run. isX c)"
    by blast
qed

lemma decodeLowercase_nonneg:
  "isLowercase c0 \<Longrightarrow> \<forall>c\<in>set run. isLowercase c \<Longrightarrow> 0 \<le> decodeLowercase (c0 # run)"
  by (cases run) (simp_all add: isLowercase_def Let_def)

lemma decodeUppercase_nonneg:
  "isUppercase c0 \<Longrightarrow> \<forall>c\<in>set run. isUppercase c \<Longrightarrow> 0 \<le> decodeUppercase (c0 # run)"
  by (cases run) (simp_all add: isUppercase_def Let_def)

lemma scanned_extend:
  assumes "P (charCodeAt s pos)" "pos < length s"
    "\<forall>i. Suc pos \<le> i \<and> i < pos' \<longrightarrow> i < length s \<and> P (charCodeAt s i)"
  shows "\<forall>i. pos \<le> i \<and> i < pos' \<longrightarrow> i < length s \<and> P (charCodeAt s i)"
proof (intro allI impI)
  fix i
  assume i: "pos \<le> i \<and> i < pos'"
  show "i < length s \<and> P (charCodeAt s i)"
  proof (cases "i = pos")
    case True
    with assms(1,2) show ?thesis by simp
  next
    case False
    with i have "Suc pos \<le> i \<and> i < pos'" by simp
    with assms(3) show ?thesis by blast
  qed
qed

lemma parse_dimension_Inr:
  assumes "pos < length s" "parse_dimension s pos expectedType = Inr (pos', index, nextType)"
  shows "pos < pos'" "0 \<le> index" "index \<le> 255"
    "\<forall>i. pos \<le> i \<and> i < pos' \<longrightarrow> i < length s \<and> in_class (charCodeAt s i)"
proof -
  have "pos < pos' \<and> 0 \<le> index \<and> index \<le> 255 \<and>
        (\<forall>i. pos \<le> i \<and> i < pos' \<longrightarrow> i < length s \<and> in_class (charCodeAt s i))"
  proof (cases expectedType)
    case Lowercase
    obtain p chars where col: "collect isLowercase s (Suc pos) [charCodeAt s pos] = (p, chars)"
      by (cases "collect isLowercase s (Suc pos) [charCodeAt s pos]")
    from assms(2) have low: "isLowercase (charCodeAt s pos)"
      by (auto simp add: Lowercase Let_def split: if_splits)
    with assms(2) col have res: "p = pos'" "index = decodeLowercase chars" "index \<le> 255"
      by (auto simp add: Lowercase Let_def MAX_INDEX_VALUE_def split: if_splits)
    note sc = collect_scanned [OF col]
    from sc(3) obtain run where "chars = charCodeAt s pos # run" "\<forall>c\<in>set run. isLowercase c"
      by auto
    with low res(2) have "0 \<le> index"
      by (simp add: decodeLowercase_nonneg)
    moreover from scanned_extend [OF low assms(1) sc(2)]
    have "\<forall>i. pos \<le> i \<and> i < pos' \<longrightarrow> i < length s \<and> in_class (charCodeAt s i)"
      by (simp add: res(1) in_class_classes)
    ultimately show ?thesis
      using sc(1) res by simp
  next
    case Integer
    obtain p chars where col: "collect isDigit s (Suc pos) [charCodeAt s pos] = (p, chars)"
      by (cases "collect isDigit s (Suc pos) [charCodeAt s pos]")
    from assms(2) have dig: "isDigit (charCodeAt s pos)"
      by (auto simp add: Integer Let_def split: if_splits)
    with assms(2) col have res: "p = pos'" "0 \<le> index" "index \<le> 255"
      by (auto simp add: Integer Let_def MAX_INDEX_VALUE_def split: if_splits)
    note sc = collect_scanned [OF col]
    from scanned_extend [OF dig assms(1) sc(2)]
    have "\<forall>i. pos \<le> i \<and> i < pos' \<longrightarrow> i < length s \<and> in_class (charCodeAt s i)"
      by (simp add: res(1) in_class_classes)
    then show ?thesis
      using sc(1) res by simp
  next
    case Uppercase
    obtain p chars where col: "collect isUppercase s (Suc pos) [charCodeAt s pos] = (p, chars)"
      by (cases "collect isUppercase s (Suc pos) [charCodeAt s pos]")
    from assms(2) have up: "isUppercase (charCodeAt s pos)"
      by (auto simp add: Uppercase Let_def split: if_splits)
    with assms(2) col have res: "p = pos'" "index = decodeUppercase chars" "index \<le> 255"
      by (auto simp add: Uppercase Let_def MAX_INDEX_VALUE_def split: if_splits)
    note sc = collect_scanned [OF col]
    from sc(3) obtain run where "chars = charCodeAt s pos # run" "\<forall>c\<in>set run. isUppercase c"
      by auto
    with up res(2) have "0 \<le> index"
      by (simp add: decodeUppercase_nonneg)
    moreover from scanned_extend [OF up assms(1) sc(2)]
    have "\<forall>i. pos \<le> i \<and> i < pos' \<longrightarrow> i < length s \<and> in_class (charCodeAt s i)"
      by (simp add: res(1) in_class_classes)
    ultimately show ?thesis
      using sc(1) res by simp
  qed
  then show "pos < pos'" "0 \<le> index" "index \<le> 255"
    "\<forall>i. pos \<le> i \<and> i < pos' \<longrightarrow> i < length s \<and> in_class (charCodeAt s i)"
    by blast+
qed

lemma parse_dimension_Inl:
  "parse_dimension s pos expectedType = Inl e \<Longrightarrow>
     e \<in> {CellError UNEXPECTED_CHARACTER, CellError LEADING_ZERO, CellError INDEX_OUT_OF_RANGE}"
  by (cases expectedType) (auto simp add: Let_def split: if_splits prod.splits)

lemma parse_loop_Inr:
  assumes "parse_loop s pos expectedType collected = Inr result"
    "\<forall>v\<in>set collected. 0 \<le> v \<and> v \<le> 255"
  shows "length collected \<le> length result \<and> (pos < length s \<longrightarrow> length collected < length result) \<and>
         (pos < length s \<or> length collected \<le> 3 \<longrightarrow> length result \<le> 3) \<and>
         (\<forall>v\<in>set result. 0 \<le> v \<and> v \<le> 255) \<and>
         (\<forall>i. pos \<le> i \<and> i < length s \<longrightarrow> in_class (charCodeAt s i))"
  using assms
proof (induction s pos expectedType collected rule: parse_loop.induct)
  case (1 s pos expectedType collected)
  show ?case
  proof (cases "pos < length s")
    case False
    with "1.prems" show ?thesis
      by (auto simp add: parse_loop_exit)
  next
    case inside: True
    show ?thesis
    proof (cases "3 \<le> length collected")
      case True
      with inside "1.prems"(1) show ?thesis
        by (simp add: parse_loop_limit)
    next
      case room: False
      show ?thesis
      proof (cases "parse_dimension s pos expectedType")
        case (Inl e)
        with inside room "1.prems"(1) show ?thesis
          by (simp add: parse_loop_failure)
      next
        case (Inr triple)
        obtain pos' index nextType where t: "triple = (pos', index, nextType)"
          by (cases triple)
        note step = Inr [unfolded t]
        note d = parse_dimension_Inr [OF inside step]
        from inside room step "1.prems"(1)
        have next_result: "parse_loop s pos' nextType (collected @ [index]) = Inr result"
          by (simp add: parse_loop_turn)
        from room have room': "\<not> MAX_DIMENSIONS \<le> length collected"
          by (simp add: MAX_DIMENSIONS_def)
        from "1.prems"(2) d(2,3) have "\<forall>v\<in>set (collected @ [index]). 0 \<le> v \<and> v \<le> 255"
          by simp
        with "1.IH" [OF inside room' step refl refl next_result]
        have ih: "length (collected @ [index]) \<le> length result"
          "pos' < length s \<or> length (collected @ [index]) \<le> 3 \<longrightarrow> length result \<le> 3"
          "\<forall>v\<in>set result. 0 \<le> v \<and> v \<le> 255"
          "\<forall>i. pos' \<le> i \<and> i < length s \<longrightarrow> in_class (charCodeAt s i)"
          by simp_all
        have "\<forall>i. pos \<le> i \<and> i < length s \<longrightarrow> in_class (charCodeAt s i)"
        proof (intro allI impI)
          fix i
          assume "pos \<le> i \<and> i < length s"
          then show "in_class (charCodeAt s i)"
            using d(4) ih(4) by (cases "i < pos'") auto
        qed
        with ih room show ?thesis
          by auto
      qed
    qed
  qed
qed

lemma parse_loop_Inl:
  "parse_loop s pos expectedType collected = Inl e \<Longrightarrow>
     e \<in> {CellError UNEXPECTED_CHARACTER, CellError LEADING_ZERO, CellError INDEX_OUT_OF_RANGE,
          CellError TOO_MANY_DIMENSIONS}"
proof (induction s pos expectedType collected rule: parse_loop.induct)
  case (1 s pos expectedType collected)
  show ?case
  proof (cases "pos < length s")
    case False
    with "1.prems" show ?thesis
      by (simp add: parse_loop_exit)
  next
    case inside: True
    show ?thesis
    proof (cases "3 \<le> length collected")
      case True
      with inside "1.prems"(1) show ?thesis
        by (simp add: parse_loop_limit)
    next
      case room: False
      show ?thesis
      proof (cases "parse_dimension s pos expectedType")
        case (Inl e')
        with inside room "1.prems"(1) parse_dimension_Inl [OF Inl] show ?thesis
          by (auto simp add: parse_loop_failure)
      next
        case (Inr triple)
        obtain pos' index nextType where t: "triple = (pos', index, nextType)"
          by (cases triple)
        note step = Inr [unfolded t]
        from room have room': "\<not> MAX_DIMENSIONS \<le> length collected"
          by (simp add: MAX_DIMENSIONS_def)
        from inside room step "1.prems"(1)
        have "parse_loop s pos' nextType (collected @ [index]) = Inl e"
          by (simp add: parse_loop_turn)
        then show ?thesis
          by (rule "1.IH" [OF inside room' step refl refl])
      qed
    qed
  qed
qed

lemma check_indices_stores:
  "check_indices given = Inr vs \<Longrightarrow> map Integral vs = given"
proof (induction given arbitrary: vs rule: check_indices.induct)
  case 1
  then show ?case by simp
next
  case (2 rest)
  then show ?case by simp
next
  case (3 index rest)
  then show ?case
    by (auto split: if_splits sum.splits)
qed

lemma Coordinate_new_stores:
  "Coordinate_new given = Inr c \<Longrightarrow> map Integral (indices c) = given"
  by (auto simp add: Coordinate_new_def check_indices_stores split: if_splits sum.splits)

lemma parse_dimension_foreign:
  assumes "pos < length s" "\<not> in_class (charCodeAt s pos)"
  shows "parse_dimension s pos expectedType = Inl (CellError UNEXPECTED_CHARACTER)"
  using assms by (cases expectedType) (simp_all add: in_class_classes Let_def)

lemma parse_dimension_within:
  assumes "pos < length s" "parse_dimension s pos expectedType = Inr (pos', index, nextType)"
  shows "pos' \<le> length s"
proof -
  note d = parse_dimension_Inr [OF assms]
  from d(1) have "pos \<le> pos' - 1 \<and> pos' - 1 < pos'"
    by simp
  with d(4) have "pos' - 1 < length s"
    by blast
  then show ?thesis
    by simp
qed

lemma takeWhile_stop: "\<not> P x \<Longrightarrow> takeWhile P (ys @ x # zs) = takeWhile P ys"
  by (induction ys) simp_all

lemma collect_prefix:
  assumes "\<not> isX (uint x)" "pos \<le> length pre"
  shows "collect isX (pre @ x # rest) pos chars = collect isX pre pos chars"
  using assms by (simp add: collect_takeWhile takeWhile_stop)

lemma charCodeAt_prefix:
  "pos < length pre \<Longrightarrow> charCodeAt (pre @ ys) pos = charCodeAt pre pos"
  by (simp add: charCodeAt_def nth_append)

lemma parse_dimension_prefix:
  assumes "\<not> in_class (uint x)" "pos < length pre"
  shows "parse_dimension (pre @ x # rest) pos expectedType = parse_dimension pre pos expectedType"
proof -
  from assms(1) have "\<not> isLowercase (uint x)" "\<not> isDigit (uint x)" "\<not> isUppercase (uint x)"
    by (simp_all add: in_class_classes)
  moreover from assms(2) have "Suc pos \<le> length pre"
    by simp
  ultimately show ?thesis
    using assms(2)
    by (cases expectedType)
      (simp_all add: charCodeAt_prefix collect_prefix Let_def cong del: if_weak_cong)
qed

text \<open>
  The loop on a string cut by a character outside the classes goes as on the part before
  the character, as far as that part reaches; there it stops with a failure.
\<close>

lemma parse_loop_prefix:
  assumes "\<not> in_class (uint x)" "pos \<le> length pre"
  shows "parse_loop (pre @ x # rest) pos expectedType collected =
           (case parse_loop pre pos expectedType collected of
              Inl e \<Rightarrow> Inl e
            | Inr result \<Rightarrow>
                Inl (CellError (if 3 \<le> length result then TOO_MANY_DIMENSIONS
                                else UNEXPECTED_CHARACTER)))"
  using assms(2)
proof (induction pre pos expectedType collected rule: parse_loop.induct)
  case (1 pre pos expectedType collected)
  let ?s = "pre @ x # rest"
  have inside: "pos < length ?s"
    using "1.prems" by simp
  show ?case
  proof (cases "3 \<le> length collected")
    case True
    with inside show ?thesis
      by (cases "pos < length pre") (simp_all add: parse_loop_limit parse_loop_exit)
  next
    case room: False
    show ?thesis
    proof (cases "pos < length pre")
      case False
      with "1.prems" have "charCodeAt ?s pos = uint x"
        by (simp add: charCodeAt_def)
      with assms(1) inside have "parse_dimension ?s pos expectedType =
          Inl (CellError UNEXPECTED_CHARACTER)"
        by (simp add: parse_dimension_foreign)
      with inside room False show ?thesis
        by (simp add: parse_loop_failure parse_loop_exit)
    next
      case before: True
      have same: "parse_dimension ?s pos expectedType = parse_dimension pre pos expectedType"
        using assms(1) before by (rule parse_dimension_prefix)
      show ?thesis
      proof (cases "parse_dimension pre pos expectedType")
        case (Inl e)
        with same inside before room show ?thesis
          by (simp add: parse_loop_failure)
      next
        case (Inr triple)
        obtain pos' index nextType where t: "triple = (pos', index, nextType)"
          by (cases triple)
        note step = Inr [unfolded t]
        from room have room': "\<not> MAX_DIMENSIONS \<le> length collected"
          by (simp add: MAX_DIMENSIONS_def)
        have "pos' \<le> length pre"
          using before step by (rule parse_dimension_within)
        then have "parse_loop ?s pos' nextType (collected @ [index]) =
            (case parse_loop pre pos' nextType (collected @ [index]) of
               Inl e \<Rightarrow> Inl e
             | Inr result \<Rightarrow>
                 Inl (CellError (if 3 \<le> length result then TOO_MANY_DIMENSIONS
                                 else UNEXPECTED_CHARACTER)))"
          by (rule "1.IH" [OF before room' step refl refl])
        moreover from same step have "parse_dimension ?s pos expectedType =
            Inr (pos', index, nextType)"
          by simp
        ultimately show ?thesis
          using inside before room step
          by (simp add: parse_loop_turn)
      qed
    qed
  qed
qed

lemma parse_accepted:
  assumes "parse s = Inr c"
  shows "s \<noteq> []" "length s \<le> 7" "isLowercase (charCodeAt s 0)"
    "parse_loop s 0 Lowercase [] = Inr (indices c)"
proof -
  from assms show ne: "s \<noteq> []" and len: "length s \<le> 7" and low: "isLowercase (charCodeAt s 0)"
    by (auto simp add: parse_def MAX_STRING_LENGTH_def Let_def split: if_splits)
  with assms obtain collected where loop: "parse_loop s 0 Lowercase [] = Inr collected"
    and new: "Coordinate_new (map Integral collected) = Inr c"
    by (auto simp add: parse_def MAX_STRING_LENGTH_def Let_def split: sum.splits)
  from Coordinate_new_stores [OF new] have "map Integral (indices c) = map Integral collected" .
  then have "indices c = collected"
    by (simp add: inj_map_eq_map inj_on_def)
  with loop show "parse_loop s 0 Lowercase [] = Inr (indices c)"
    by simp
qed

lemma parse_rejected:
  assumes "parse s = Inl e" "s \<noteq> []" "length s \<le> 7" "isLowercase (charCodeAt s 0)"
  shows "parse_loop s 0 Lowercase [] = Inl e"
proof (cases "parse_loop s 0 Lowercase []")
  case (Inl e')
  with assms show ?thesis
    by (simp add: parse_def MAX_STRING_LENGTH_def Let_def)
next
  case (Inr collected)
  from assms(2) have "0 < length s" by simp
  with parse_loop_Inr [OF Inr]
  have "1 \<le> length collected" "length collected \<le> 3" "\<forall>v\<in>set collected. 0 \<le> v \<and> v \<le> 255"
    by (auto simp add: Suc_le_eq)
  then have "Coordinate_new (map Integral collected) = Inr \<lparr>indices = collected\<rparr>"
    by (rule Coordinate_new_accepts)
  with Inr assms show ?thesis
    by (simp add: parse_def MAX_STRING_LENGTH_def Let_def)
qed

lemma nth_in_class:
  assumes "\<forall>i. i < length s \<longrightarrow> in_class (charCodeAt s i)" "x \<in> set s"
  shows "in_class (uint x)"
proof -
  from assms(2) obtain i where "i < length s" "s ! i = x"
    by (auto simp add: in_set_conv_nth)
  with assms(1) show ?thesis
    by (auto simp add: charCodeAt_def)
qed

lemma digits_value_grows:
  "\<forall>c\<in>set cs. isDigit c \<Longrightarrow> 0 \<le> acc \<Longrightarrow>
     acc \<le> foldl (\<lambda>value c. value * 10 + (c - 48)) acc cs"
proof (induction cs arbitrary: acc)
  case Nil
  then show ?case by simp
next
  case (Cons c cs)
  from Cons.prems have "acc \<le> acc * 10 + (c - 48)"
    by (simp add: isDigit_def)
  moreover from Cons.prems have "acc * 10 + (c - 48) \<le>
      foldl (\<lambda>value c. value * 10 + (c - 48)) (acc * 10 + (c - 48)) cs"
    by (intro Cons.IH) (simp_all add: isDigit_def)
  ultimately show ?case
    by simp
qed

lemma decodeInteger_nonneg:
  assumes "D \<noteq> []" "\<forall>x\<in>set D. isDigit (uint x)" "uint (hd D) \<noteq> 48"
  shows "0 \<le> decodeInteger (map uint D)"
proof -
  from assms(1) obtain x xs where D: "D = x # xs"
    by (cases D) auto
  with assms(2,3) have "1 \<le> uint x - 48"
    by (simp add: isDigit_def)
  moreover from assms(2) D have "\<forall>c\<in>set (map uint xs). isDigit c"
    by simp
  then have "uint x - 48 \<le> foldl (\<lambda>value c. value * 10 + (c - 48)) (uint x - 48) (map uint xs)"
    using \<open>1 \<le> uint x - 48\<close> by (intro digits_value_grows) simp_all
  ultimately show ?thesis
    by (simp add: decodeInteger_def D)
qed

lemma check_indices_rejects:
  "\<exists>x\<in>set given. \<not> is_index x \<Longrightarrow> check_indices given = Inl (CellError INDEX_OUT_OF_RANGE)"
proof (induction given rule: check_indices.induct)
  case 1
  then show ?case by simp
next
  case (2 rest)
  show ?case by simp
next
  case (3 index rest)
  then show ?case
    by (auto simp add: MAX_INDEX_VALUE_def)
qed

lemma check_indices_keeps:
  "\<forall>x\<in>set given. is_index x \<Longrightarrow> \<exists>vs. check_indices given = Inr vs \<and> map Integral vs = given"
proof (induction given rule: check_indices.induct)
  case 1
  show ?case by simp
next
  case (2 rest)
  then show ?case by simp
next
  case (3 index rest)
  then show ?case
    by (auto simp add: MAX_INDEX_VALUE_def)
qed

lemma after_keeps_frozen:
  assumes "a < length st" "frozen (st ! a)"
  shows "a < length (after obj st act) \<and> after obj st act ! a = st ! a"
proof (cases act)
  case (New_Coordinate given)
  with assms show ?thesis
    by (auto simp add: Coordinate_construct_def nth_append split: sum.splits)
next
  case (Mutate b f)
  from assms(2) have "\<not> frozen (st ! b) \<Longrightarrow> a \<noteq> b"
    by auto
  with Mutate assms show ?thesis
    by (auto simp add: mutate_def split: sum.splits if_splits)
qed (use assms in simp_all)

lemma run_keeps_frozen:
  assumes "a < length st" "frozen (st ! a)"
  shows "a < length (foldl (after obj) st acts) \<and> foldl (after obj) st acts ! a = st ! a"
  using assms
proof (induction acts arbitrary: st)
  case Nil
  then show ?case by simp
next
  case (Cons act acts)
  from after_keeps_frozen [OF Cons.prems, of obj act]
  have 1: "a < length (after obj st act)" and 2: "after obj st act ! a = st ! a"
    by simp_all
  with Cons.prems(2) have "frozen (after obj st act ! a)"
    by simp
  from Cons.IH [OF 1 this] 2 show ?case
    by simp
qed

section \<open>Properties of the codec\<close>

subsection \<open>Round trip from a token\<close>

text \<open>
  C1. The round trip \<^verbatim>\<open>format(...parse(s).indices) == s\<close> at the token \<^verbatim>\<open>"aaa"\<close>: the
  decoder of a letter run reads its first two letters only, so \<^verbatim>\<open>parse\<close> accepts the run
  of three letters with index 26, and \<^verbatim>\<open>format\<close> of that index is \<^verbatim>\<open>"aa"\<close>, another
  string.
\<close>

theorem parse_accepts_noncanonical_token:
  "parse (str ''aaa'') = Inr \<lparr>indices = [26]\<rparr> \<and>
   format (map Integral [26]) = Inr (str ''aa'') \<and>
   str ''aa'' \<noteq> str ''aaa''"
  by code_simp

subsection \<open>Round trip from a Coordinate\<close>

text \<open>
  C2. For every valid Coordinate (1 to 3 indices, each in \<open>[0, 255]\<close>), \<^verbatim>\<open>format\<close> of its
  indices succeeds with its serialization, and \<^verbatim>\<open>parse\<close> of the serialization succeeds with
  a Coordinate of the same indices.
\<close>

theorem parse_toString_roundtrip:
  assumes "1 \<le> dimensions c" "dimensions c \<le> 3" "\<forall>v\<in>set (indices c). 0 \<le> v \<and> v \<le> 255"
  shows "format (map Integral (indices c)) = Inr (toString c) \<and> parse (toString c) = Inr c"
proof -
  obtain vs where c: "c = \<lparr>indices = vs\<rparr>"
    by (cases c) simp
  from assms have len: "1 \<le> length vs" "length vs \<le> 3" and rng: "\<forall>v\<in>set vs. 0 \<le> v \<and> v \<le> 255"
    by (simp_all add: c dimensions_def)
  then have new: "Coordinate_new (map Integral vs) = Inr \<lparr>indices = vs\<rparr>"
    by (rule Coordinate_new_accepts)
  then have f: "format (map Integral (indices c)) = Inr (toString c)"
    by (simp add: format_def c)
  from len consider a where "vs = [a]" | a b where "vs = [a, b]" | a b d where "vs = [a, b, d]"
    by (cases vs rule: list.exhaust; simp; rename_tac x xs; case_tac xs; simp;
        rename_tac y ys; case_tac ys; simp)
  then have "parse (toString c) = Inr c"
  proof cases
    case 1
    with rng have a: "0 \<le> a" "a \<le> 255" by simp_all
    note La = encodeToLower_run [OF a]
    have "parse_loop (encodeToLower a) 0 Lowercase [] = Inr [a]"
      using parse_loop_one_run [OF La(1,2,3)] a by (simp add: decodeLowercase_encodeToLower)
    moreover have "isLowercase (uint (hd (encodeToLower a)))"
      using hd_run_class [OF La(1,2), of "[]"] by simp
    ultimately show ?thesis
      using La(1,4) new
      by (simp add: c 1 toString_cases parse_after_checks)
  next
    case 2
    with rng have a: "0 \<le> a" "a \<le> 255" and b: "0 \<le> b" "b \<le> 255" by simp_all
    note La = encodeToLower_run [OF a]
    note Db = encodeToNumber_run [OF b]
    have "parse_loop (encodeToLower a @ encodeToNumber b) 0 Lowercase [] = Inr [a, b]"
      using parse_loop_two_runs [OF La(1,2,3) Db(1,2,3)] a b Db(4)
      by (simp add: decodeLowercase_encodeToLower)
    moreover have "isLowercase (uint (hd (encodeToLower a @ encodeToNumber b)))"
      by (rule hd_run_class [OF La(1,2)])
    ultimately show ?thesis
      using La(1,4) Db(5) new
      by (simp add: c 2 toString_cases parse_after_checks)
  next
    case 3
    with rng have a: "0 \<le> a" "a \<le> 255" and b: "0 \<le> b" "b \<le> 255" and d: "0 \<le> d" "d \<le> 255"
      by simp_all
    note La = encodeToLower_run [OF a]
    note Db = encodeToNumber_run [OF b]
    note Ud = encodeToUpper_run [OF d]
    let ?s = "encodeToLower a @ encodeToNumber b @ encodeToUpper d"
    have "parse_loop (?s @ []) 0 Lowercase [] = parse_loop (?s @ [])
            (length (encodeToLower a) + length (encodeToNumber b) + length (encodeToUpper d))
            Lowercase [a, b, d]"
      using parse_loop_three_runs [OF La(1,2,3) Db(1,2,3) _ _ Ud(1,2,3), of "[]"] a b d Db(4)
      by (simp add: decodeLowercase_encodeToLower decodeUppercase_encodeToUpper)
    then have "parse_loop ?s 0 Lowercase [] = Inr [a, b, d]"
      by (simp add: parse_loop_exit)
    moreover have "isLowercase (uint (hd ?s))"
      by (rule hd_run_class [OF La(1,2)])
    ultimately show ?thesis
      using La(1,4) Db(5) Ud(4) new
      by (simp add: c 3 toString_cases parse_after_checks)
  qed
  with f show ?thesis by simp
qed

text \<open>
  The round trip at the largest Coordinate.
\<close>

theorem parse_toString_roundtrip_witness:
  "format (map Integral [255, 255, 255]) = Inr (str ''iv256IV'') \<and>
   parse (str ''iv256IV'') = Inr \<lparr>indices = [255, 255, 255]\<rparr>"
proof -
  have t: "toString \<lparr>indices = [255, 255, 255]\<rparr> = str ''iv256IV''"
    by code_simp
  from parse_toString_roundtrip [of "\<lparr>indices = [255, 255, 255]\<rparr>"] show ?thesis
    by (simp add: t dimensions_def)
qed

subsection \<open>Construction\<close>

text \<open>
  C3, as the code has it. Constructing a Coordinate from N values fails with
  \<^verbatim>\<open>NO_INDICES\<close> when N = 0 and with \<^verbatim>\<open>TOO_MANY_DIMENSIONS\<close> when N > 3, whatever the values;
  with 1 to 3 values it fails with \<^verbatim>\<open>INDEX_OUT_OF_RANGE\<close> when some value is not an integer
  in \<open>[0, 255]\<close> and succeeds otherwise, storing the values in order. \<^verbatim>\<open>format\<close> fails with
  the failure of the construction and succeeds exactly when the construction does.
\<close>

theorem Coordinate_new_outcome:
  "(length g0 = 0 \<longrightarrow> Coordinate_new g0 = Inl (CellError NO_INDICES)) \<and>
   (3 < length g4 \<longrightarrow> Coordinate_new g4 = Inl (CellError TOO_MANY_DIMENSIONS)) \<and>
   (1 \<le> length gb \<and> length gb \<le> 3 \<and> (\<exists>x\<in>set gb. \<not> is_index x) \<longrightarrow>
      Coordinate_new gb = Inl (CellError INDEX_OUT_OF_RANGE)) \<and>
   (1 \<le> length gv \<and> length gv \<le> 3 \<and> (\<forall>x\<in>set gv. is_index x) \<longrightarrow>
      (\<exists>c. Coordinate_new gv = Inr c \<and> map Integral (indices c) = gv)) \<and>
   (format given = Inl e \<longleftrightarrow> Coordinate_new given = Inl e) \<and>
   ((\<exists>t. format given = Inr t) \<longleftrightarrow> (\<exists>c. Coordinate_new given = Inr c))"
proof (intro conjI impI)
  assume "length g0 = 0"
  then show "Coordinate_new g0 = Inl (CellError NO_INDICES)"
    by (simp add: Coordinate_new_def)
next
  assume "3 < length g4"
  then show "Coordinate_new g4 = Inl (CellError TOO_MANY_DIMENSIONS)"
    by (auto simp add: Coordinate_new_def MAX_DIMENSIONS_def)
next
  assume "1 \<le> length gb \<and> length gb \<le> 3 \<and> (\<exists>x\<in>set gb. \<not> is_index x)"
  then show "Coordinate_new gb = Inl (CellError INDEX_OUT_OF_RANGE)"
    by (auto simp add: Coordinate_new_def MAX_DIMENSIONS_def check_indices_rejects)
next
  assume a: "1 \<le> length gv \<and> length gv \<le> 3 \<and> (\<forall>x\<in>set gv. is_index x)"
  then obtain vs where "check_indices gv = Inr vs" "map Integral vs = gv"
    using check_indices_keeps [of gv] by blast
  with a show "\<exists>c. Coordinate_new gv = Inr c \<and> map Integral (indices c) = gv"
    by (auto simp add: Coordinate_new_def MAX_DIMENSIONS_def)
next
  show "format given = Inl e \<longleftrightarrow> Coordinate_new given = Inl e"
    by (cases "Coordinate_new given") (simp_all add: format_def)
next
  show "(\<exists>t. format given = Inr t) \<longleftrightarrow> (\<exists>c. Coordinate_new given = Inr c)"
    by (cases "Coordinate_new given") (simp_all add: format_def)
qed

text \<open>
  One construction of each of the four kinds.
\<close>

theorem Coordinate_new_outcome_witness:
  "Coordinate_new [] = Inl (CellError NO_INDICES) \<and>
   Coordinate_new [Integral 0, Integral 0, Integral 0, Integral 0] =
     Inl (CellError TOO_MANY_DIMENSIONS) \<and>
   Coordinate_new [Integral 4, NonInteger] = Inl (CellError INDEX_OUT_OF_RANGE) \<and>
   (\<exists>c. Coordinate_new [Integral 4, Integral 3] = Inr c \<and>
        map Integral (indices c) = [Integral 4, Integral 3])"
  using Coordinate_new_outcome [of "[]" "[Integral 0, Integral 0, Integral 0, Integral 0]"
      "[Integral 4, NonInteger]" "[Integral 4, Integral 3]"]
  by simp

text \<open>
  The two failures on the number of values carry different messages, and four values
  fail on their number even when one of them is out of range.
\<close>

theorem Coordinate_new_count_counterexample:
  "Coordinate_new [] = Inl (CellError NO_INDICES) \<and>
   Coordinate_new [Integral 0, Integral 0, Integral 0, Integral 256] =
     Inl (CellError TOO_MANY_DIMENSIONS) \<and>
   NO_INDICES \<noteq> TOO_MANY_DIMENSIONS \<and> TOO_MANY_DIMENSIONS \<noteq> INDEX_OUT_OF_RANGE"
  by (simp add: Coordinate_new_def MAX_DIMENSIONS_def ErrorMessages_defs)

subsection \<open>Encoding\<close>

text \<open>
  C4. The serialization is the concatenation, over the positions \<open>p\<close>, of the index at
  \<open>p\<close> encoded in the alphabet chosen by \<open>p mod 3\<close>: lowercase letters, the decimal digits
  of the index plus one (no leading zero), uppercase letters. In a letter alphabet an
  index below 26 is the one letter \<open>base + v\<close>, an index from 26 to 255 is the two letters
  \<open>base + (v - 26) div 26\<close> and \<open>base + (v - 26) mod 26\<close>. \<^verbatim>\<open>format(4, 3)\<close> is
  \<^verbatim>\<open>"e4"\<close>, \<^verbatim>\<open>format(0, 0, 0)\<close> is \<^verbatim>\<open>"a1A"\<close> and \<^verbatim>\<open>format(255, 255, 255)\<close> is
  \<^verbatim>\<open>"iv256IV"\<close>.
\<close>

theorem toString_cyclic_alphabets:
  "toString c =
     concat (map (\<lambda>p. if p mod 3 = 0 then encodeToLower (indices c ! p)
                      else if p mod 3 = 1 then encodeToNumber (indices c ! p)
                      else encodeToUpper (indices c ! p)) [0..<dimensions c]) \<and>
   (0 \<le> v \<and> v < 26 \<longrightarrow>
      map uint (encodeToLower v) = [97 + v] \<and> map uint (encodeToUpper v) = [65 + v]) \<and>
   (26 \<le> w \<and> w \<le> 255 \<longrightarrow>
      map uint (encodeToLower w) = [97 + (w - 26) div 26, 97 + (w - 26) mod 26] \<and>
      map uint (encodeToUpper w) = [65 + (w - 26) div 26, 65 + (w - 26) mod 26]) \<and>
   (0 \<le> n \<longrightarrow>
      (\<forall>x\<in>set (encodeToNumber n). isDigit (uint x)) \<and> uint (hd (encodeToNumber n)) \<noteq> 48 \<and>
      foldl (\<lambda>value c. value * 10 + (c - 48)) 0 (map uint (encodeToNumber n)) = n + 1) \<and>
   format [Integral 4, Integral 3] = Inr (str ''e4'') \<and>
   format [Integral 0, Integral 0, Integral 0] = Inr (str ''a1A'') \<and>
   format [Integral 255, Integral 255, Integral 255] = Inr (str ''iv256IV'')"
proof (intro conjI impI)
  show "toString c =
     concat (map (\<lambda>p. if p mod 3 = 0 then encodeToLower (indices c ! p)
                      else if p mod 3 = 1 then encodeToNumber (indices c ! p)
                      else encodeToUpper (indices c ! p)) [0..<dimensions c])"
    by (simp add: toString_def toString_loop_concat dimensions_def)
next
  assume "0 \<le> v \<and> v < 26"
  then show "map uint (encodeToLower v) = [97 + v]" and "map uint (encodeToUpper v) = [65 + v]"
    by (simp_all add: uint_encodeToLower uint_encodeToUpper)
next
  assume "26 \<le> w \<and> w \<le> 255"
  then show "map uint (encodeToLower w) = [97 + (w - 26) div 26, 97 + (w - 26) mod 26]"
    and "map uint (encodeToUpper w) = [65 + (w - 26) div 26, 65 + (w - 26) mod 26]"
    by (simp_all add: uint_encodeToLower uint_encodeToUpper)
next
  assume n: "0 \<le> n"
  then have e: "encodeToNumber n = digits (nat (n + 1))"
    by (simp add: encodeToNumber_def Number_toString_def)
  show "\<forall>x\<in>set (encodeToNumber n). isDigit (uint x)"
    by (simp add: e digits_class)
  from n show "uint (hd (encodeToNumber n)) \<noteq> 48"
    by (simp add: e digits_hd)
  from n show "foldl (\<lambda>value c. value * 10 + (c - 48)) 0 (map uint (encodeToNumber n)) = n + 1"
    by (simp add: e digits_value)
next
  show "format [Integral 4, Integral 3] = Inr (str ''e4'')"
    by code_simp
  show "format [Integral 0, Integral 0, Integral 0] = Inr (str ''a1A'')"
    by code_simp
  show "format [Integral 255, Integral 255, Integral 255] = Inr (str ''iv256IV'')"
    by code_simp
qed

text \<open>
  The letters of 25 and of 255, and the digits of 255.
\<close>

theorem toString_cyclic_alphabets_witness:
  "map uint (encodeToLower 25) = [122] \<and> map uint (encodeToUpper 25) = [90] \<and>
   map uint (encodeToLower 255) = [105, 118] \<and> map uint (encodeToUpper 255) = [73, 86] \<and>
   foldl (\<lambda>value c. value * 10 + (c - 48)) 0 (map uint (encodeToNumber 255)) = 256"
  using toString_cyclic_alphabets [of _ 25 255 255]
  by simp

subsection \<open>The loop feeds the constructor\<close>



subsection \<open>Characters outside the classes\<close>

text \<open>
  C6, as the code has it. The characters of the classes are the 62 characters a-z, 0-9,
  A-Z, of codes 48 to 57, 65 to 90 and 97 to 122; every code below 48 or above 122 (the
  control characters and everything beyond ASCII) is outside them. A string with a
  character outside the classes is never accepted: \<^verbatim>\<open>parse\<close> fails, with one of the failures
  other than \<^verbatim>\<open>EMPTY_INPUT\<close> and \<^verbatim>\<open>NO_INDICES\<close>. Which one: \<^verbatim>\<open>INPUT_TOO_LONG\<close> when the
  string has more than 7 characters; otherwise \<^verbatim>\<open>INVALID_START\<close> when the character is the
  first; otherwise, when the part before the character is itself rejected, the failure of
  that part; and when the part before the character is an accepted token,
  \<^verbatim>\<open>UNEXPECTED_CHARACTER\<close>, unless the token has three dimensions already, where the
  count is tested first and the failure is \<^verbatim>\<open>TOO_MANY_DIMENSIONS\<close>. A turn of the loop that
  starts at such a character fails with \<^verbatim>\<open>UNEXPECTED_CHARACTER\<close>, whatever type it expects.
\<close>

theorem parse_rejects_foreign_characters:
  "((\<exists>x\<in>set s. \<not> in_class (uint x)) \<longrightarrow>
      (\<exists>m. parse s = Inl (CellError m) \<and>
           m \<in> {INPUT_TOO_LONG, INVALID_START, UNEXPECTED_CHARACTER, LEADING_ZERO,
                INDEX_OUT_OF_RANGE, TOO_MANY_DIMENSIONS})) \<and>
   (t \<noteq> [] \<and> length t \<le> 7 \<and> \<not> in_class (uint (hd t)) \<longrightarrow>
      parse t = Inl (CellError INVALID_START)) \<and>
   (pos < length u \<and> \<not> in_class (charCodeAt u pos) \<longrightarrow>
      parse_dimension u pos expectedType = Inl (CellError UNEXPECTED_CHARACTER)) \<and>
   (c < 48 \<or> 122 < c \<longrightarrow> \<not> in_class c) \<and>
   (in_class d \<longleftrightarrow> (48 \<le> d \<and> d \<le> 57) \<or> (65 \<le> d \<and> d \<le> 90) \<or> (97 \<le> d \<and> d \<le> 122)) \<and>
   (7 < length w \<longrightarrow> parse w = Inl (CellError INPUT_TOO_LONG)) \<and>
   (\<not> in_class (uint y) \<and> pre \<noteq> [] \<and> length (pre @ y # rest) \<le> 7 \<longrightarrow>
      parse (pre @ y # rest) =
        (case parse pre of
           Inl e \<Rightarrow> Inl e
         | Inr accepted \<Rightarrow>
             Inl (CellError (if 3 \<le> dimensions accepted then TOO_MANY_DIMENSIONS
                             else UNEXPECTED_CHARACTER))))"
proof (intro conjI impI)
  assume foreign: "\<exists>x\<in>set s. \<not> in_class (uint x)"
  then have ne: "s \<noteq> []" by auto
  show "\<exists>m. parse s = Inl (CellError m) \<and>
           m \<in> {INPUT_TOO_LONG, INVALID_START, UNEXPECTED_CHARACTER, LEADING_ZERO,
                INDEX_OUT_OF_RANGE, TOO_MANY_DIMENSIONS}"
  proof (cases "length s \<le> 7 \<and> isLowercase (charCodeAt s 0)")
    case False
    with ne show ?thesis
      by (auto simp add: parse_def MAX_STRING_LENGTH_def Let_def)
  next
    case True
    with ne have p: "parse s = (case parse_loop s 0 Lowercase [] of
                      Inl e \<Rightarrow> Inl e
                    | Inr collected \<Rightarrow> Coordinate_new (map Integral collected))"
      by (simp add: parse_def MAX_STRING_LENGTH_def Let_def)
    show ?thesis
    proof (cases "parse_loop s 0 Lowercase []")
      case (Inl e)
      with parse_loop_Inl [OF Inl] p show ?thesis
        by auto
    next
      case (Inr collected)
      from parse_loop_Inr [OF Inr] have "\<forall>i. i < length s \<longrightarrow> in_class (charCodeAt s i)"
        by simp
      with foreign nth_in_class have False
        by blast
      then show ?thesis ..
    qed
  qed
next
  assume "t \<noteq> [] \<and> length t \<le> 7 \<and> \<not> in_class (uint (hd t))"
  moreover from this have "charCodeAt t 0 = uint (hd t)"
    by (cases t) (simp_all add: charCodeAt_def)
  ultimately show "parse t = Inl (CellError INVALID_START)"
    by (simp add: parse_def MAX_STRING_LENGTH_def Let_def in_class_classes)
next
  assume "pos < length u \<and> \<not> in_class (charCodeAt u pos)"
  then show "parse_dimension u pos expectedType = Inl (CellError UNEXPECTED_CHARACTER)"
    by (simp add: parse_dimension_foreign)
next
  assume "c < 48 \<or> 122 < c"
  then show "\<not> in_class c"
    by (auto simp add: in_class_ranges)
next
  show "in_class d \<longleftrightarrow> (48 \<le> d \<and> d \<le> 57) \<or> (65 \<le> d \<and> d \<le> 90) \<or> (97 \<le> d \<and> d \<le> 122)"
    by (rule in_class_ranges)
next
  assume "7 < length w"
  then show "parse w = Inl (CellError INPUT_TOO_LONG)"
    by (auto simp add: parse_def MAX_STRING_LENGTH_def)
next
  assume a: "\<not> in_class (uint y) \<and> pre \<noteq> [] \<and> length (pre @ y # rest) \<le> 7"
  let ?s = "pre @ y # rest"
  from a have y: "\<not> in_class (uint y)" and pre: "pre \<noteq> []" "length pre \<le> 7"
    and len: "length ?s \<le> 7"
    by simp_all
  from pre(1) have first: "charCodeAt ?s 0 = charCodeAt pre 0"
    by (simp add: charCodeAt_prefix)
  show "parse ?s =
        (case parse pre of
           Inl e \<Rightarrow> Inl e
         | Inr accepted \<Rightarrow>
             Inl (CellError (if 3 \<le> dimensions accepted then TOO_MANY_DIMENSIONS
                             else UNEXPECTED_CHARACTER)))"
  proof (cases "isLowercase (charCodeAt pre 0)")
    case False
    with pre len first show ?thesis
      by (simp add: parse_def MAX_STRING_LENGTH_def Let_def)
  next
    case low: True
    have loop: "parse_loop ?s 0 Lowercase [] =
           (case parse_loop pre 0 Lowercase [] of
              Inl e \<Rightarrow> Inl e
            | Inr result \<Rightarrow>
                Inl (CellError (if 3 \<le> length result then TOO_MANY_DIMENSIONS
                                else UNEXPECTED_CHARACTER)))"
      using y by (rule parse_loop_prefix) simp
    define outcome where "outcome =
      (case parse_loop pre 0 Lowercase [] of
         Inl e \<Rightarrow> e
       | Inr result \<Rightarrow>
           CellError (if 3 \<le> length result then TOO_MANY_DIMENSIONS else UNEXPECTED_CHARACTER))"
    from loop have "parse_loop ?s 0 Lowercase [] = Inl outcome"
      by (simp add: outcome_def split: sum.splits)
    with low first len have whole: "parse ?s = Inl outcome"
      by (simp add: parse_def MAX_STRING_LENGTH_def Let_def)
    show ?thesis
    proof (cases "parse pre")
      case (Inl e)
      from parse_rejected [OF Inl pre low] have "outcome = e"
        by (simp add: outcome_def)
      with whole Inl show ?thesis
        by simp
    next
      case (Inr accepted)
      from parse_accepted(4) [OF Inr] have "outcome =
          CellError (if 3 \<le> dimensions accepted then TOO_MANY_DIMENSIONS
                     else UNEXPECTED_CHARACTER)"
        by (simp add: outcome_def dimensions_def)
      with whole Inr show ?thesis
        by simp
    qed
  qed
qed

text \<open>
  A combining mark after a letter, where \<^verbatim>\<open>parse\<close> fails with \<^verbatim>\<open>UNEXPECTED_CHARACTER\<close>; a
  Cyrillic first letter; a zero-width space where digits are expected; the line feed; the
  colon, between the digits and the uppercase letters; a string of eight characters.
\<close>

theorem parse_rejects_foreign_characters_witness:
  "(\<exists>m. parse (str ''a'' @ [0x301]) = Inl (CellError m) \<and>
        m \<in> {INPUT_TOO_LONG, INVALID_START, UNEXPECTED_CHARACTER, LEADING_ZERO,
             INDEX_OUT_OF_RANGE, TOO_MANY_DIMENSIONS}) \<and>
   parse (str ''a'' @ [0x301]) = Inl (CellError UNEXPECTED_CHARACTER) \<and>
   parse [0x430] = Inl (CellError INVALID_START) \<and>
   parse_dimension (str ''a'' @ [0x200B] @ str ''1'') 1 Integer =
     Inl (CellError UNEXPECTED_CHARACTER) \<and>
   \<not> in_class 10 \<and> \<not> in_class 58 \<and>
   parse (str ''a1A'' @ [0x430] @ str ''aaaa'') = Inl (CellError INPUT_TOO_LONG)"
proof -
  have h1: "\<exists>x\<in>set (str ''a'' @ [0x301]). \<not> in_class (uint x)"
    by (simp add: str_def in_class_ranges)
  have h2: "[0x430 :: 16 word] \<noteq> [] \<and> length [0x430 :: 16 word] \<le> 7 \<and>
            \<not> in_class (uint (hd [0x430 :: 16 word]))"
    by (simp add: in_class_ranges)
  have h3: "1 < length (str ''a'' @ [0x200B] @ str ''1'') \<and>
            \<not> in_class (charCodeAt (str ''a'' @ [0x200B] @ str ''1'') 1)"
    by (simp add: str_def charCodeAt_def in_class_ranges)
  have h4: "(10 :: int) < 48 \<or> 122 < (10 :: int)"
    by simp
  have h5: "\<not> ((48 \<le> (58 :: int) \<and> (58 :: int) \<le> 57) \<or> (65 \<le> (58 :: int) \<and> (58 :: int) \<le> 90) \<or>
               (97 \<le> (58 :: int) \<and> (58 :: int) \<le> 122))"
    by simp
  have h6: "7 < length (str ''a1A'' @ [0x430] @ str ''aaaa'')"
    by (simp add: str_def)
  have h7: "\<not> in_class (uint (0x301 :: 16 word)) \<and> str ''a'' \<noteq> [] \<and>
            length (str ''a'' @ 0x301 # []) \<le> 7"
    by (simp add: str_def in_class_ranges)
  have before: "parse (str ''a'') = Inr \<lparr>indices = [0]\<rparr>"
    by code_simp
  from parse_rejects_foreign_characters [where s = "str ''a'' @ [0x301]" and t = "[0x430]"
      and pos = 1 and u = "str ''a'' @ [0x200B] @ str ''1''" and expectedType = Integer
      and c = 10 and d = 58 and w = "str ''a1A'' @ [0x430] @ str ''aaaa''"
      and y = "0x301" and pre = "str ''a''" and rest = "[]"]
  have "(\<exists>m. parse (str ''a'' @ [0x301]) = Inl (CellError m) \<and>
        m \<in> {INPUT_TOO_LONG, INVALID_START, UNEXPECTED_CHARACTER, LEADING_ZERO,
             INDEX_OUT_OF_RANGE, TOO_MANY_DIMENSIONS})"
    and "parse [0x430] = Inl (CellError INVALID_START)"
    and "parse_dimension (str ''a'' @ [0x200B] @ str ''1'') 1 Integer =
          Inl (CellError UNEXPECTED_CHARACTER)"
    and "\<not> in_class 10" and "\<not> in_class 58"
    and "parse (str ''a1A'' @ [0x430] @ str ''aaaa'') = Inl (CellError INPUT_TOO_LONG)"
    and "parse (str ''a'' @ 0x301 # []) =
          (case parse (str ''a'') of
             Inl e \<Rightarrow> Inl e
           | Inr accepted \<Rightarrow>
               Inl (CellError (if 3 \<le> dimensions accepted then TOO_MANY_DIMENSIONS
                               else UNEXPECTED_CHARACTER)))"
    using h1 h2 h3 h4 h5 h6 h7 by blast+
  then show ?thesis
    by (simp add: before dimensions_def)
qed

text \<open>
  A character outside the classes that the parser never reaches: the zero before it
  fails first, with \<^verbatim>\<open>LEADING_ZERO\<close>.
\<close>

theorem parse_foreign_character_counterexample:
  "\<not> in_class (uint (0x430 :: 16 word)) \<and>
   parse (str ''a0'' @ [0x430]) = Inl (CellError LEADING_ZERO) \<and>
   LEADING_ZERO \<noteq> UNEXPECTED_CHARACTER \<and> LEADING_ZERO \<noteq> INVALID_START"
proof -
  have "parse (str ''a0'' @ [0x430]) = Inl (CellError LEADING_ZERO)"
    by code_simp
  then show ?thesis
    by (simp add: in_class_ranges ErrorMessages_defs)
qed

subsection \<open>A fourth dimension\<close>

text \<open>
  C7, as the code has it. An input of at most 7 characters that begins with a run of
  lowercase letters, a run of digits and a run of uppercase letters, each decoding to an
  index of at most 255, and that has a further character, fails with
  \<^verbatim>\<open>TOO_MANY_DIMENSIONS\<close>. The count is tested before the next run is read: a turn of the
  loop with three indices collected and a character left fails so whatever that character
  and the expected type are.
\<close>

theorem fourth_dimension_rejected:
  "(L \<noteq> [] \<and> (\<forall>x\<in>set L. isLowercase (uint x)) \<and> decodeLowercase (map uint L) \<le> 255 \<and>
    D \<noteq> [] \<and> (\<forall>x\<in>set D. isDigit (uint x)) \<and> uint (hd D) \<noteq> 48 \<and>
    decodeInteger (map uint D) \<le> 255 \<and>
    U \<noteq> [] \<and> (\<forall>x\<in>set U. isUppercase (uint x)) \<and> decodeUppercase (map uint U) \<le> 255 \<and>
    rest \<noteq> [] \<and> \<not> isUppercase (uint (hd rest)) \<and> length (L @ D @ U @ rest) \<le> 7 \<longrightarrow>
      parse (L @ D @ U @ rest) = Inl (CellError TOO_MANY_DIMENSIONS)) \<and>
   (pos < length s \<and> 3 \<le> length collected \<longrightarrow>
      parse_loop s pos expectedType collected = Inl (CellError TOO_MANY_DIMENSIONS))"
proof (intro conjI impI)
  assume a: "L \<noteq> [] \<and> (\<forall>x\<in>set L. isLowercase (uint x)) \<and> decodeLowercase (map uint L) \<le> 255 \<and>
    D \<noteq> [] \<and> (\<forall>x\<in>set D. isDigit (uint x)) \<and> uint (hd D) \<noteq> 48 \<and>
    decodeInteger (map uint D) \<le> 255 \<and>
    U \<noteq> [] \<and> (\<forall>x\<in>set U. isUppercase (uint x)) \<and> decodeUppercase (map uint U) \<le> 255 \<and>
    rest \<noteq> [] \<and> \<not> isUppercase (uint (hd rest)) \<and> length (L @ D @ U @ rest) \<le> 7"
  let ?s = "L @ D @ U @ rest"
  from a have L: "L \<noteq> []" "\<forall>x\<in>set L. isLowercase (uint x)" "decodeLowercase (map uint L) \<le> 255"
    and D: "D \<noteq> []" "\<forall>x\<in>set D. isDigit (uint x)" "uint (hd D) \<noteq> 48"
      "decodeInteger (map uint D) \<le> 255"
    and U: "U \<noteq> []" "\<forall>x\<in>set U. isUppercase (uint x)" "decodeUppercase (map uint U) \<le> 255"
    and rest: "rest \<noteq> []" "\<not> isUppercase (uint (hd rest))" and len: "length ?s \<le> 7"
    by blast+
  have D0: "0 \<le> decodeInteger (map uint D)"
    using D(1,2,3) by (rule decodeInteger_nonneg)
  from rest(2) have r: "rest = [] \<or> \<not> isUppercase (uint (hd rest))" ..
  have "parse_loop ?s 0 Lowercase [] =
          parse_loop ?s (length L + length D + length U) Lowercase
            [decodeLowercase (map uint L), decodeInteger (map uint D), decodeUppercase (map uint U)]"
    by (rule parse_loop_three_runs [OF L D(1,2,3) D0 D(4) U r])
  also have "\<dots> = Inl (CellError TOO_MANY_DIMENSIONS)"
    using rest(1) by (simp add: parse_loop_limit)
  finally have "parse_loop ?s 0 Lowercase [] = Inl (CellError TOO_MANY_DIMENSIONS)" .
  moreover have "?s \<noteq> []" using L(1) by simp
  moreover have "isLowercase (uint (hd ?s))"
    by (rule hd_run_class [OF L(1,2)])
  ultimately show "parse ?s = Inl (CellError TOO_MANY_DIMENSIONS)"
    using len by (simp add: parse_after_checks)
next
  assume "pos < length s \<and> 3 \<le> length collected"
  then show "parse_loop s pos expectedType collected = Inl (CellError TOO_MANY_DIMENSIONS)"
    by (simp add: parse_loop_limit)
qed

text \<open>
  The input \<^verbatim>\<open>"a1Aa"\<close>.
\<close>

theorem fourth_dimension_rejected_witness:
  "parse (str ''a1Aa'') = Inl (CellError TOO_MANY_DIMENSIONS) \<and>
   parse_loop (str ''a1Aa'') 3 Lowercase [0, 0, 0] = Inl (CellError TOO_MANY_DIMENSIONS)"
proof -
  have h: "str ''a'' \<noteq> [] \<and> (\<forall>x\<in>set (str ''a''). isLowercase (uint x)) \<and>
      decodeLowercase (map uint (str ''a'')) \<le> 255 \<and>
      str ''1'' \<noteq> [] \<and> (\<forall>x\<in>set (str ''1''). isDigit (uint x)) \<and> uint (hd (str ''1'')) \<noteq> 48 \<and>
      decodeInteger (map uint (str ''1'')) \<le> 255 \<and>
      str ''A'' \<noteq> [] \<and> (\<forall>x\<in>set (str ''A''). isUppercase (uint x)) \<and>
      decodeUppercase (map uint (str ''A'')) \<le> 255 \<and>
      str ''a'' \<noteq> [] \<and> \<not> isUppercase (uint (hd (str ''a''))) \<and>
      length (str ''a'' @ str ''1'' @ str ''A'' @ str ''a'') \<le> 7"
    by (simp add: str_def isLowercase_def isDigit_def isUppercase_def decodeInteger_def)
  have e: "str ''a'' @ str ''1'' @ str ''A'' @ str ''a'' = str ''a1Aa''"
    by (simp add: str_def)
  have l: "3 < length (str ''a1Aa'') \<and> 3 \<le> length [0, 0, 0 :: int]"
    by (simp add: str_def)
  from fourth_dimension_rejected [where L = "str ''a''" and D = "str ''1''" and U = "str ''A''"
      and rest = "str ''a''" and s = "str ''a1Aa''" and pos = 3 and collected = "[0, 0, 0]"
      and expectedType = Lowercase] h l
  show ?thesis
    unfolding e by blast
qed

text \<open>
  Three runs that decode and five more characters: the length is tested first, and the
  failure is \<^verbatim>\<open>INPUT_TOO_LONG\<close>.
\<close>

theorem fourth_dimension_length_counterexample:
  "parse_dimension (str ''a1Aaaaaa'') 0 Lowercase = Inr (1, 0, Integer) \<and>
   parse_dimension (str ''a1Aaaaaa'') 1 Integer = Inr (2, 0, Uppercase) \<and>
   parse_dimension (str ''a1Aaaaaa'') 2 Uppercase = Inr (3, 0, Lowercase) \<and>
   3 < length (str ''a1Aaaaaa'') \<and>
   parse (str ''a1Aaaaaa'') = Inl (CellError INPUT_TOO_LONG) \<and>
   INPUT_TOO_LONG \<noteq> TOO_MANY_DIMENSIONS"
proof -
  have "parse_dimension (str ''a1Aaaaaa'') 0 Lowercase = Inr (1, 0, Integer)"
    by code_simp
  moreover have "parse_dimension (str ''a1Aaaaaa'') 1 Integer = Inr (2, 0, Uppercase)"
    by code_simp
  moreover have "parse_dimension (str ''a1Aaaaaa'') 2 Uppercase = Inr (3, 0, Lowercase)"
    by code_simp
  moreover have "parse (str ''a1Aaaaaa'') = Inl (CellError INPUT_TOO_LONG)"
    by code_simp
  ultimately show ?thesis
    by (simp add: str_def ErrorMessages_defs)
qed

subsection \<open>validate and isValid\<close>

text \<open>
  C8. \<^verbatim>\<open>validate\<close> succeeds exactly when \<^verbatim>\<open>parse\<close> succeeds and fails with exactly the
  failure of \<^verbatim>\<open>parse\<close>; \<^verbatim>\<open>isValid\<close> is a total boolean function (it has no failure
  branch), true exactly when \<^verbatim>\<open>parse\<close> succeeds and false exactly when \<^verbatim>\<open>parse\<close> fails.
\<close>

theorem validate_isValid_follow_parse:
  "(validate s = Inr () \<longleftrightarrow> (\<exists>c. parse s = Inr c)) \<and>
   (validate s = Inl e \<longleftrightarrow> parse s = Inl e) \<and>
   (isValid s \<longleftrightarrow> (\<exists>c. parse s = Inr c)) \<and>
   (\<not> isValid s \<longleftrightarrow> (\<exists>e'. parse s = Inl e'))"
  by (cases "parse s") (simp_all add: validate_def isValid_def)

subsection \<open>The indices array\<close>

text \<open>
  C9. After a successful construction the getter \<^verbatim>\<open>indices\<close> answers the address of an
  array object that is frozen, holds the given values, and is none of the objects that
  existed before. A write to it throws a TypeError. After any sequence of actions (members
  of the class, further constructions, writes to any array) the object at that address is
  the same, contents and frozen flag, so the getter, which reads the private field alone,
  answers the same reference to the same values, and the members read the same indices.
\<close>

theorem indices_array_frozen_and_stable:
  assumes "Coordinate_construct st given = Inr (obj, st')"
  shows "get_indices obj < length st' \<and>
         frozen (st' ! get_indices obj) \<and>
         map Integral (elements (st' ! get_indices obj)) = given \<and>
         (\<forall>a. a < length st \<longrightarrow> a \<noteq> get_indices obj \<and> st' ! a = st ! a) \<and>
         (\<forall>f. mutate st' (get_indices obj) f = Inl TypeError) \<and>
         (\<forall>acts. foldl (after obj) st' acts ! get_indices obj = st' ! get_indices obj \<and>
                 snapshot (foldl (after obj) st' acts) obj = snapshot st' obj)"
proof -
  from assms obtain c where c: "Coordinate_new given = Inr c"
    and obj: "obj = \<lparr>private_indices = length st\<rparr>"
    and st': "st' = st @ [\<lparr>elements = indices c, frozen = True\<rparr>]"
    by (auto simp add: Coordinate_construct_def split: sum.splits)
  have a: "get_indices obj < length st'" and fr: "frozen (st' ! get_indices obj)"
    and el: "elements (st' ! get_indices obj) = indices c"
    by (simp_all add: get_indices_def obj st')
  from c have "map Integral (indices c) = given"
    by (rule Coordinate_new_stores)
  moreover have "\<forall>a. a < length st \<longrightarrow> a \<noteq> get_indices obj \<and> st' ! a = st ! a"
    by (simp add: get_indices_def obj st' nth_append)
  moreover from a fr have "\<forall>f. mutate st' (get_indices obj) f = Inl TypeError"
    by (simp add: mutate_def)
  moreover have "\<forall>acts. foldl (after obj) st' acts ! get_indices obj = st' ! get_indices obj \<and>
                 snapshot (foldl (after obj) st' acts) obj = snapshot st' obj"
    using run_keeps_frozen [OF a fr, of obj] by (simp add: snapshot_def get_indices_def)
  ultimately show ?thesis
    using a fr el by simp
qed

text \<open>
  A Coordinate in an empty store, a refused write and three actions.
\<close>

theorem indices_array_frozen_and_stable_witness:
  "Coordinate_construct [] [Integral 4, Integral 3] =
     Inr (\<lparr>private_indices = 0\<rparr>, [\<lparr>elements = [4, 3], frozen = True\<rparr>]) \<and>
   mutate [\<lparr>elements = [4, 3], frozen = True\<rparr>] 0 (\<lambda>xs. xs[0 := 9]) = Inl TypeError \<and>
   foldl (after \<lparr>private_indices = 0\<rparr>) [\<lparr>elements = [4, 3], frozen = True\<rparr>]
     [Mutate 0 (\<lambda>xs. 9 # xs), Read_indices, New_Coordinate [Integral 1]] ! 0 =
     \<lparr>elements = [4, 3], frozen = True\<rparr>"
proof -
  have made: "Coordinate_construct [] [Integral 4, Integral 3] =
     Inr (\<lparr>private_indices = 0\<rparr>, [\<lparr>elements = [4, 3], frozen = True\<rparr>])"
    by (simp add: Coordinate_construct_def Coordinate_new_def MAX_DIMENSIONS_def
        MAX_INDEX_VALUE_def)
  from indices_array_frozen_and_stable [OF made]
  have "\<forall>f. mutate [\<lparr>elements = [4, 3], frozen = True\<rparr>] 0 f = Inl TypeError"
    and "\<forall>acts. foldl (after \<lparr>private_indices = 0\<rparr>) [\<lparr>elements = [4, 3], frozen = True\<rparr>]
           acts ! 0 = \<lparr>elements = [4, 3], frozen = True\<rparr>"
    by (simp_all add: get_indices_def)
  with made show ?thesis
    by blast
qed

subsection \<open>Access by position\<close>

text \<open>
  C10. \<^verbatim>\<open>c.at(i)\<close> returns the i-th stored index when \<open>i\<close> is an integer with
  \<open>0 \<le> i < c.dimensions\<close>; it throws a RangeError when \<open>i\<close> is negative, at least
  \<open>c.dimensions\<close>, or not an integer; it never throws a CellError.
\<close>

theorem at_index_or_RangeError:
  "(0 \<le> k \<and> k < int (dimensions c) \<longrightarrow> at c (Integral k) = Inr (indices c ! nat k)) \<and>
   (j < 0 \<or> j \<ge> int (dimensions c) \<longrightarrow>
      at c (Integral j) = Inl (RangeError (Integral j) (dimensions c))) \<and>
   at c NonInteger = Inl (RangeError NonInteger (dimensions c)) \<and>
   (\<forall>i m. at c i \<noteq> Inl (CellError m))"
proof -
  have "at c i \<noteq> Inl (CellError m)" for i m
    by (cases i) auto
  then show ?thesis
    by (auto simp add: dimensions_def)
qed

text \<open>
  Positions 1 and 2 and a fraction, on a Coordinate of two dimensions.
\<close>

theorem at_index_or_RangeError_witness:
  "at \<lparr>indices = [4, 3]\<rparr> (Integral 1) = Inr 3 \<and>
   at \<lparr>indices = [4, 3]\<rparr> (Integral 2) = Inl (RangeError (Integral 2) 2) \<and>
   at \<lparr>indices = [4, 3]\<rparr> NonInteger = Inl (RangeError NonInteger 2)"
  using at_index_or_RangeError [of 1 "\<lparr>indices = [4, 3]\<rparr>" 2]
  by (simp add: dimensions_def)

end
